theory Spec2Isabelle
  imports Main "HOL-Library.Word" "HOL-Library.Signed_Division"
begin

section \<open>Instruction set and values\<close>

text \<open>
  The bytecode virtual machine of \<^verbatim>\<open>RockPaperScissors.cpp\<close> (the part of the file
  that starts at \<^verbatim>\<open>enum class OpCode\<close>). The opcodes are the enumerators of
  \<^verbatim>\<open>OpCode\<close>, in the order of the source.
\<close>

datatype OpCode =
    PUSH | POP | DUP | SWAP
  | ADD | SUB | MUL | DIV | MOD | NEG
  | EQ | NE | LT | LE | GT | GE
  | AND | OR | NOT
  | LOAD | STORE | LOAD_GLOBAL | STORE_GLOBAL
  | JMP | JMP_IF_FALSE | JMP_IF_TRUE | CALL | RET
  | NEW_ARRAY | ARRAY_GET | ARRAY_SET | ARRAY_LEN
  | PRINT | HALT | NOP

text \<open>
  An \<^verbatim>\<open>Object*\<close> is an address or \<^verbatim>\<open>nullptr\<close> (\<open>None\<close>). A \<^verbatim>\<open>Value\<close> is a tag of
  \<^verbatim>\<open>ValueType\<close> with the member of the union that the tag selects; the constructors
  carry the names of the tags. \<^verbatim>\<open>int64_t\<close> is a 64-bit word read through \<open>sint\<close>. A
  \<^verbatim>\<open>double\<close> is kept as its 64 bits (IEEE 754 binary64): the machine only ever
  compares it with \<^verbatim>\<open>0.0\<close> and prints it.
\<close>

type_synonym addr = nat
type_synonym int64 = "64 word"
type_synonym int32 = "32 word"

datatype Value =
    NIL
  | BOOLEAN bool
  | INTEGER int64
  | DOUBLE int64
  | OBJECT "addr option"

text \<open>
  \<^verbatim>\<open>struct Object\<close> with its two subclasses. Both carry the \<^verbatim>\<open>marked\<close> flag of the
  base class; the constructor used is the \<^verbatim>\<open>type\<close> field.
\<close>

datatype Object =
    ArrayObject (marked: bool) (elements: "int64 list")
  | StringObject (marked: bool) (data: string)

definition set_marked :: "bool \<Rightarrow> Object \<Rightarrow> Object" where
  "set_marked b ob =
     (case ob of ArrayObject _ es \<Rightarrow> ArrayObject b es | StringObject _ s \<Rightarrow> StringObject b s)"

text \<open>
  The free store: the objects that are alive, by address. Reading through a pointer to
  an address that holds no object (freed, or never allocated) is undefined behaviour in
  C++; the model makes it a fault, as it does for the other ways the program can leave
  the language: a null pointer read, the exception of an impossible allocation size,
  and the overflowing signed division.
\<close>

type_synonym heap = "addr \<rightharpoonup> Object"

datatype fault = NullDeref | UseAfterFree | LengthError | DivOverflow

text \<open>\<^verbatim>\<open>Value::isTruthy\<close>. A double differs from \<^verbatim>\<open>0.0\<close> unless all its bits but the sign are 0.\<close>

definition isTruthy :: "Value \<Rightarrow> bool" where
  "isTruthy v =
     (case v of
        NIL \<Rightarrow> False
      | BOOLEAN b \<Rightarrow> b
      | INTEGER i \<Rightarrow> i \<noteq> 0
      | DOUBLE d \<Rightarrow> take_bit 63 d \<noteq> 0
      | OBJECT p \<Rightarrow> p \<noteq> None)"

section \<open>Garbage collector\<close>

text \<open>
  \<^verbatim>\<open>class GarbageCollector\<close>: the registry \<^verbatim>\<open>objects\<close> and the two counters, both 8 in a
  new collector. \<^verbatim>\<open>size_t\<close> counts are natural numbers (a registry of \<open>2\<^sup>6\<^sup>3\<close> pointers
  does not fit the address space, so \<^verbatim>\<open>objects.size() * 2\<close> does not wrap).
\<close>

record GarbageCollector =
  objects :: "addr list"
  nextGC :: nat
  threshold :: nat

definition GarbageCollector_init :: GarbageCollector where
  "GarbageCollector_init = \<lparr>objects = [], nextGC = 8, threshold = 8\<rparr>"

definition markObject :: "addr option \<Rightarrow> heap \<Rightarrow> fault + heap" where
  "markObject obj h =
     (case obj of
        None \<Rightarrow> Inr h
      | Some a \<Rightarrow>
          (case h a of
             None \<Rightarrow> Inl UseAfterFree
           | Some ob \<Rightarrow> if marked ob then Inr h else Inr (h(a \<mapsto> set_marked True ob))))"

definition markValue :: "Value \<Rightarrow> heap \<Rightarrow> fault + heap" where
  "markValue v h =
     (case v of
        OBJECT p \<Rightarrow> (if p \<noteq> None then markObject p h else Inr h)
      | _ \<Rightarrow> Inr h)"

text \<open>Each \<^verbatim>\<open>for\<close> statement of \<^verbatim>\<open>collect\<close> over a root collection.\<close>

fun mark_all :: "Value list \<Rightarrow> heap \<Rightarrow> fault + heap" where
  "mark_all [] h = Inr h"
| "mark_all (v # vs) h =
     (case markValue v h of Inl f \<Rightarrow> Inl f | Inr h' \<Rightarrow> mark_all vs h')"

text \<open>
  \<^verbatim>\<open>sweep\<close>: the iterator walks the registry; an unmarked object is deleted and erased,
  a marked one is unmarked and kept.
\<close>

fun sweep :: "addr list \<Rightarrow> heap \<Rightarrow> fault + (addr list \<times> heap)" where
  "sweep [] h = Inr ([], h)"
| "sweep (a # as) h =
     (case h a of
        None \<Rightarrow> Inl UseAfterFree
      | Some ob \<Rightarrow>
          if \<not> marked ob then sweep as (h(a := None))
          else (case sweep as (h(a \<mapsto> set_marked False ob)) of
                  Inl f \<Rightarrow> Inl f
                | Inr (kept, h') \<Rightarrow> Inr (a # kept, h')))"

definition collect ::
  "GarbageCollector \<Rightarrow> Value list \<Rightarrow> Value list \<Rightarrow> heap \<Rightarrow> fault + (GarbageCollector \<times> heap)" where
  "collect g stk glob h =
     (case mark_all stk h of
        Inl f \<Rightarrow> Inl f
      | Inr h1 \<Rightarrow>
          (case mark_all glob h1 of
             Inl f \<Rightarrow> Inl f
           | Inr h2 \<Rightarrow>
               (case sweep (objects g) h2 of
                  Inl f \<Rightarrow> Inl f
                | Inr (kept, h3) \<Rightarrow>
                    let n = length kept * 2
                    in Inr (g\<lparr>objects := kept,
                              nextGC := (if n < threshold g then threshold g else n)\<rparr>, h3))))"

definition shouldCollect :: "GarbageCollector \<Rightarrow> bool" where
  "shouldCollect g = (length (objects g) \<ge> nextGC g)"

definition objectCount :: "GarbageCollector \<Rightarrow> nat" where
  "objectCount g = length (objects g)"

text \<open>
  \<^verbatim>\<open>allocate<ArrayObject>(size)\<close>: \<^verbatim>\<open>new\<close> hands out an address that holds no object (here
  the first one never used), the array is zero-filled and unmarked, and its address is
  appended to the registry.
\<close>

definition allocate_array ::
  "nat \<Rightarrow> GarbageCollector \<Rightarrow> heap \<Rightarrow> addr \<Rightarrow> addr \<times> GarbageCollector \<times> heap \<times> addr" where
  "allocate_array n g h fresh =
     (fresh, g\<lparr>objects := objects g @ [fresh]\<rparr>,
      h(fresh \<mapsto> ArrayObject False (replicate n 0)), Suc fresh)"

section \<open>Bytecode chunk\<close>

record Instruction =
  opcode :: OpCode
  operand :: int32

record Chunk =
  code :: "Instruction list"
  constants :: "Value list"
  lines :: "int list"

definition Chunk_init :: Chunk where
  "Chunk_init = \<lparr>code = [], constants = [], lines = []\<rparr>"

text \<open>\<^verbatim>\<open>Chunk::write\<close>.\<close>

definition write_chunk :: "Instruction \<Rightarrow> int \<Rightarrow> Chunk \<Rightarrow> Chunk" where
  "write_chunk instr line c = c\<lparr>code := code c @ [instr], lines := lines c @ [line]\<rparr>"

definition addConstant :: "Value \<Rightarrow> Chunk \<Rightarrow> nat \<times> Chunk" where
  "addConstant v c = (length (constants c), c\<lparr>constants := constants c @ [v]\<rparr>)"

section \<open>Integer conversions and decimal text\<close>

text \<open>
  The conversions the source writes or implies: \<^verbatim>\<open>(int)\<close> of a \<^verbatim>\<open>size_t\<close>, \<^verbatim>\<open>(int64_t)\<close>
  of a \<^verbatim>\<open>size_t\<close>, an \<^verbatim>\<open>int32_t\<close> operand assigned to the \<^verbatim>\<open>size_t\<close> instruction
  pointer (sign extension, so a negative operand becomes a huge index), and a
  \<^verbatim>\<open>size_t\<close> stored into an \<^verbatim>\<open>int32_t\<close> operand (the low 32 bits).
\<close>

definition int_of_size :: "nat \<Rightarrow> int" where
  "int_of_size n = sint (word_of_nat n :: int32)"

definition int64_of_size :: "nat \<Rightarrow> int" where
  "int64_of_size n = sint (word_of_nat n :: int64)"

definition size_of_int32 :: "int32 \<Rightarrow> nat" where
  "size_of_int32 w = unat (word_of_int (sint w) :: int64)"

definition int32_of_size :: "nat \<Rightarrow> int32" where
  "int32_of_size n = word_of_nat n"

text \<open>\<^verbatim>\<open>std::to_string\<close> of an unsigned and of a signed integer.\<close>

definition digit_char :: "nat \<Rightarrow> char" where
  "digit_char d = ''0123456789'' ! d"

fun digits :: "nat \<Rightarrow> string" where
  "digits n = (if n < 10 then [digit_char n] else digits (n div 10) @ [digit_char (n mod 10)])"

declare digits.simps [simp del]

definition to_string :: "int \<Rightarrow> string" where
  "to_string i = (if i < 0 then CHR ''-'' # digits (nat (- i)) else digits (nat i))"

section \<open>Virtual machine\<close>

text \<open>
  A line of output is text, or a double that \<^verbatim>\<open>toString\<close> renders with \<^verbatim>\<open>std::fixed\<close> and
  two decimals; that rendering is not computed here, the line keeps the double.
\<close>

datatype line = Text string | Fixed2 int64

text \<open>
  The members of \<^verbatim>\<open>class VM\<close>, and the parts of the process the machine acts on: the
  free store (\<open>heap\<close>, with the next address \<^verbatim>\<open>new\<close> hands out), and the lines written
  to \<^verbatim>\<open>std::cout\<close> and \<^verbatim>\<open>std::cerr\<close>. The member \<^verbatim>\<open>chunk\<close> is the argument of \<^verbatim>\<open>execute\<close>
  and is passed along; \<^verbatim>\<open>debugMode\<close> is off (it only adds a trace to the output).
\<close>

record VM =
  ip :: nat
  stack :: "Value list"
  globals :: "Value list"
  callStack :: "nat list"
  gc :: GarbageCollector
  running :: bool
  heap :: heap
  fresh :: addr
  cout :: "line list"
  cerr :: "string list"

text \<open>The constructor \<^verbatim>\<open>VM()\<close>, in a process with an empty free store and no output yet.\<close>

definition VM_init :: VM where
  "VM_init =
     \<lparr>ip = 0, stack = [], globals = replicate 256 NIL, callStack = [],
      gc = GarbageCollector_init, running = True,
      heap = Map.empty, fresh = 0, cout = [], cerr = []\<rparr>"

definition push :: "Value \<Rightarrow> VM \<Rightarrow> VM" where
  "push v vm = vm\<lparr>stack := stack vm @ [v]\<rparr>"

definition runtimeError :: "string \<Rightarrow> VM \<Rightarrow> VM" where
  "runtimeError message vm =
     vm\<lparr>cerr := cerr vm @ [''Runtime Error: '' @ message,
                            ''  at instruction '' @ digits (ip vm)],
        running := False\<rparr>"

definition pop :: "VM \<Rightarrow> Value \<times> VM" where
  "pop vm =
     (if stack vm = [] then (NIL, runtimeError ''Stack underflow'' vm)
      else (last (stack vm), vm\<lparr>stack := butlast (stack vm)\<rparr>))"

definition peek :: "nat \<Rightarrow> VM \<Rightarrow> Value" where
  "peek distance vm =
     (if distance \<ge> length (stack vm) then NIL
      else stack vm ! (length (stack vm) - 1 - distance))"

text \<open>
  \<^verbatim>\<open>Value::toString\<close>. The object case reads \<^verbatim>\<open>as.object->type\<close>, so it needs the free
  store.
\<close>

definition toString :: "Value \<Rightarrow> heap \<Rightarrow> fault + line" where
  "toString v h =
     (case v of
        NIL \<Rightarrow> Inr (Text ''nil'')
      | BOOLEAN b \<Rightarrow> Inr (Text (if b then ''true'' else ''false''))
      | INTEGER i \<Rightarrow> Inr (Text (to_string (sint i)))
      | DOUBLE d \<Rightarrow> Inr (Fixed2 d)
      | OBJECT p \<Rightarrow>
          (case p of
             None \<Rightarrow> Inl NullDeref
           | Some a \<Rightarrow>
               (case h a of
                  None \<Rightarrow> Inl UseAfterFree
                | Some (StringObject _ s) \<Rightarrow> Inr (Text s)
                | Some (ArrayObject _ _) \<Rightarrow> Inr (Text ''[Array]''))))"

text \<open>
  \<^verbatim>\<open>VM::binaryOp\<close>. The operators of \<^verbatim>\<open>int64_t\<close>: \<open>+\<close>, \<open>-\<close> and \<open>*\<close> are those of the 64-bit
  word (two's complement, what the machine instruction computes when the exact result
  does not fit), \<^verbatim>\<open>/\<close> and \<^verbatim>\<open>%\<close> truncate towards zero (\<open>sdiv\<close> and \<open>smod\<close> on the signed
  values). The quotient of \<open>-2\<^sup>6\<^sup>3\<close> by \<open>-1\<close> does not fit and the division instruction
  traps on it: a fault. The comparisons are signed.
\<close>

definition binaryOp :: "OpCode \<Rightarrow> VM \<Rightarrow> fault + (Value \<times> VM)" where
  "binaryOp op vm =
     (let (b, vm1) = pop vm; (a, vm2) = pop vm1 in
      case a of
        INTEGER x \<Rightarrow>
          (case b of
             INTEGER y \<Rightarrow>
               (case op of
                  ADD \<Rightarrow> Inr (INTEGER (x + y), vm2)
                | SUB \<Rightarrow> Inr (INTEGER (x - y), vm2)
                | MUL \<Rightarrow> Inr (INTEGER (x * y), vm2)
                | DIV \<Rightarrow>
                    if y = 0 then Inr (NIL, runtimeError ''Division by zero'' vm2)
                    else if sint x = - (2 ^ 63) \<and> sint y = - 1 then Inl DivOverflow
                    else Inr (INTEGER (word_of_int (sint x sdiv sint y)), vm2)
                | MOD \<Rightarrow>
                    if y = 0 then Inr (NIL, runtimeError ''Modulo by zero'' vm2)
                    else if sint x = - (2 ^ 63) \<and> sint y = - 1 then Inl DivOverflow
                    else Inr (INTEGER (word_of_int (sint x smod sint y)), vm2)
                | LT \<Rightarrow> Inr (BOOLEAN (sint x < sint y), vm2)
                | LE \<Rightarrow> Inr (BOOLEAN (sint x \<le> sint y), vm2)
                | GT \<Rightarrow> Inr (BOOLEAN (sint x > sint y), vm2)
                | GE \<Rightarrow> Inr (BOOLEAN (sint x \<ge> sint y), vm2)
                | EQ \<Rightarrow> Inr (BOOLEAN (x = y), vm2)
                | NE \<Rightarrow> Inr (BOOLEAN (x \<noteq> y), vm2)
                | _ \<Rightarrow> Inr (NIL, runtimeError ''Invalid binary operation'' vm2))
           | _ \<Rightarrow> Inr (NIL, runtimeError ''Operands must be integers'' vm2))
      | _ \<Rightarrow> Inr (NIL, runtimeError ''Operands must be integers'' vm2))"

text \<open>
  The \<^verbatim>\<open>switch\<close> of \<^verbatim>\<open>VM::execute\<close> on one fetched instruction, after \<^verbatim>\<open>ip++\<close>. \<^verbatim>\<open>LOAD\<close>
  and \<^verbatim>\<open>STORE\<close> have no \<^verbatim>\<open>case\<close> and reach \<^verbatim>\<open>default\<close>. A \<^verbatim>\<open>pop\<close> that underflows
  reports the error and returns \<^verbatim>\<open>Nil\<close>, and the instruction goes on with it.
  \<^verbatim>\<open>NEW_ARRAY\<close> with a negative operand asks \<^verbatim>\<open>std::vector\<close> for more than
  \<^verbatim>\<open>max_size()\<close> elements, which throws; any other allocation succeeds (running out
  of memory is not modelled).
\<close>

definition global_index :: "Instruction \<Rightarrow> VM \<Rightarrow> bool" where
  "global_index instr vm =
     (0 \<le> sint (operand instr) \<and> sint (operand instr) < int_of_size (length (globals vm)))"

definition dispatch :: "Chunk \<Rightarrow> Instruction \<Rightarrow> VM \<Rightarrow> fault + VM" where
  "dispatch c instr vm =
     (case opcode instr of
        PUSH \<Rightarrow>
          if 0 \<le> sint (operand instr) \<and> sint (operand instr) < int_of_size (length (constants c))
          then Inr (push (constants c ! nat (sint (operand instr))) vm)
          else Inr vm
      | POP \<Rightarrow> Inr (snd (pop vm))
      | DUP \<Rightarrow> Inr (push (peek 0 vm) vm)
      | SWAP \<Rightarrow>
          (let (b, vm1) = pop vm; (a, vm2) = pop vm1 in Inr (push a (push b vm2)))
      | NEG \<Rightarrow>
          (let (a, vm1) = pop vm in
           case a of
             INTEGER x \<Rightarrow> Inr (push (INTEGER (- x)) vm1)
           | _ \<Rightarrow> Inr (runtimeError ''Operand must be integer'' vm1))
      | NOT \<Rightarrow> (let (a, vm1) = pop vm in Inr (push (BOOLEAN (\<not> isTruthy a)) vm1))
      | AND \<Rightarrow>
          (let (b, vm1) = pop vm; (a, vm2) = pop vm1
           in Inr (push (BOOLEAN (isTruthy a \<and> isTruthy b)) vm2))
      | OR \<Rightarrow>
          (let (b, vm1) = pop vm; (a, vm2) = pop vm1
           in Inr (push (BOOLEAN (isTruthy a \<or> isTruthy b)) vm2))
      | LOAD_GLOBAL \<Rightarrow>
          if global_index instr vm
          then Inr (push (globals vm ! nat (sint (operand instr))) vm)
          else Inr vm
      | STORE_GLOBAL \<Rightarrow>
          if global_index instr vm
          then Inr (vm\<lparr>globals := (globals vm)[nat (sint (operand instr)) := peek 0 vm]\<rparr>)
          else Inr vm
      | JMP \<Rightarrow> Inr (vm\<lparr>ip := size_of_int32 (operand instr)\<rparr>)
      | JMP_IF_FALSE \<Rightarrow>
          if \<not> isTruthy (peek 0 vm) then Inr (vm\<lparr>ip := size_of_int32 (operand instr)\<rparr>)
          else Inr vm
      | JMP_IF_TRUE \<Rightarrow>
          if isTruthy (peek 0 vm) then Inr (vm\<lparr>ip := size_of_int32 (operand instr)\<rparr>)
          else Inr vm
      | CALL \<Rightarrow>
          Inr (vm\<lparr>callStack := callStack vm @ [ip vm], ip := size_of_int32 (operand instr)\<rparr>)
      | RET \<Rightarrow>
          if callStack vm \<noteq> []
          then Inr (vm\<lparr>ip := last (callStack vm), callStack := butlast (callStack vm)\<rparr>)
          else Inr (vm\<lparr>running := False\<rparr>)
      | NEW_ARRAY \<Rightarrow>
          if sint (operand instr) < 0 then Inl LengthError
          else (let (arr, g, h, f) =
                      allocate_array (nat (sint (operand instr))) (gc vm) (heap vm) (fresh vm)
                in Inr (push (OBJECT (Some arr)) (vm\<lparr>gc := g, heap := h, fresh := f\<rparr>)))
      | ARRAY_GET \<Rightarrow>
          (let (idx, vm1) = pop vm; (arr, vm2) = pop vm1 in
           case arr of
             OBJECT p \<Rightarrow>
               (case p of
                  None \<Rightarrow> Inl NullDeref
                | Some a \<Rightarrow>
                    (case heap vm2 a of
                       None \<Rightarrow> Inl UseAfterFree
                     | Some (StringObject _ _) \<Rightarrow> Inr (runtimeError ''Invalid array access'' vm2)
                     | Some (ArrayObject _ es) \<Rightarrow>
                         (case idx of
                            INTEGER i \<Rightarrow>
                              if 0 \<le> sint i \<and> sint i < int64_of_size (length es)
                              then Inr (push (INTEGER (es ! nat (sint i))) vm2)
                              else Inr (runtimeError ''Array index out of bounds'' vm2)
                          | _ \<Rightarrow> Inr (runtimeError ''Invalid array access'' vm2))))
           | _ \<Rightarrow> Inr (runtimeError ''Invalid array access'' vm2))
      | ARRAY_SET \<Rightarrow>
          (let (val, vm1) = pop vm; (idx, vm2) = pop vm1; (arr, vm3) = pop vm2 in
           case arr of
             OBJECT p \<Rightarrow>
               (case p of
                  None \<Rightarrow> Inl NullDeref
                | Some a \<Rightarrow>
                    (case heap vm3 a of
                       None \<Rightarrow> Inl UseAfterFree
                     | Some (StringObject _ _) \<Rightarrow>
                         Inr (runtimeError ''Invalid array assignment'' vm3)
                     | Some (ArrayObject m es) \<Rightarrow>
                         (case idx of
                            INTEGER i \<Rightarrow>
                              (case val of
                                 INTEGER x \<Rightarrow>
                                   if 0 \<le> sint i \<and> sint i < int64_of_size (length es)
                                   then Inr (vm3\<lparr>heap := (heap vm3)
                                               (a \<mapsto> ArrayObject m (es[nat (sint i) := x]))\<rparr>)
                                   else Inr (runtimeError ''Array index out of bounds'' vm3)
                               | _ \<Rightarrow> Inr (runtimeError ''Invalid array assignment'' vm3))
                          | _ \<Rightarrow> Inr (runtimeError ''Invalid array assignment'' vm3))))
           | _ \<Rightarrow> Inr (runtimeError ''Invalid array assignment'' vm3))
      | ARRAY_LEN \<Rightarrow>
          (let (arr, vm1) = pop vm in
           case arr of
             OBJECT p \<Rightarrow>
               (case p of
                  None \<Rightarrow> Inl NullDeref
                | Some a \<Rightarrow>
                    (case heap vm1 a of
                       None \<Rightarrow> Inl UseAfterFree
                     | Some (StringObject _ _) \<Rightarrow> Inr (runtimeError ''Operand must be array'' vm1)
                     | Some (ArrayObject _ es) \<Rightarrow>
                         Inr (push (INTEGER (word_of_nat (length es))) vm1)))
           | _ \<Rightarrow> Inr (runtimeError ''Operand must be array'' vm1))
      | PRINT \<Rightarrow>
          (let (v, vm1) = pop vm in
           case toString v (heap vm1) of
             Inl f \<Rightarrow> Inl f
           | Inr s \<Rightarrow> Inr (vm1\<lparr>cout := cout vm1 @ [s]\<rparr>))
      | HALT \<Rightarrow> Inr (vm\<lparr>running := False\<rparr>)
      | NOP \<Rightarrow> Inr vm
      | LOAD \<Rightarrow> Inr (runtimeError ''Unknown opcode'' vm)
      | STORE \<Rightarrow> Inr (runtimeError ''Unknown opcode'' vm)
      | _ \<Rightarrow>
          (case binaryOp (opcode instr) vm of
             Inl f \<Rightarrow> Inl f
           | Inr (v, vm') \<Rightarrow> Inr (push v vm')))"

text \<open>
  One turn of the \<^verbatim>\<open>while\<close> loop: the collector runs first if it is due, with the
  operand stack and the globals as roots; then the instruction at \<^verbatim>\<open>ip\<close> is fetched,
  \<^verbatim>\<open>ip\<close> is advanced and the instruction is dispatched.
\<close>

definition gc_check :: "VM \<Rightarrow> fault + VM" where
  "gc_check vm =
     (if shouldCollect (gc vm)
      then (case collect (gc vm) (stack vm) (globals vm) (heap vm) of
              Inl f \<Rightarrow> Inl f
            | Inr (g, h) \<Rightarrow> Inr (vm\<lparr>gc := g, heap := h\<rparr>))
      else Inr vm)"

definition step :: "Chunk \<Rightarrow> VM \<Rightarrow> fault + VM" where
  "step c vm =
     (case gc_check vm of
        Inl f \<Rightarrow> Inl f
      | Inr vm1 \<Rightarrow> dispatch c (code c ! ip vm1) (vm1\<lparr>ip := ip vm1 + 1\<rparr>))"

text \<open>
  The loop. A program can jump backwards for ever, so the loop takes fuel: \<open>None\<close>
  says that the fuel ran out with the loop still going; \<open>Some (Inl f)\<close> that the
  process left the language with fault \<open>f\<close>; \<open>Some (Inr vm)\<close> that the loop ended in
  state \<open>vm\<close>.
\<close>

fun run :: "nat \<Rightarrow> Chunk \<Rightarrow> VM \<Rightarrow> (fault + VM) option" where
  "run n c vm =
     (if running vm \<and> ip vm < length (code c)
      then (case n of
              0 \<Rightarrow> None
            | Suc k \<Rightarrow> (case step c vm of Inl f \<Rightarrow> Some (Inl f) | Inr vm' \<Rightarrow> run k c vm'))
      else Some (Inr vm))"

declare run.simps [simp del]

text \<open>
  \<^verbatim>\<open>VM::execute\<close>: the four assignments at its head, the loop, and the value returned,
  \<^verbatim>\<open>running || ip >= chunk->code.size()\<close>.
\<close>

definition execute_reset :: "VM \<Rightarrow> VM" where
  "execute_reset vm = vm\<lparr>ip := 0, running := True, stack := []\<rparr>"

definition execute :: "nat \<Rightarrow> Chunk \<Rightarrow> VM \<Rightarrow> (fault + bool \<times> VM) option" where
  "execute n c vm =
     (case run n c (execute_reset vm) of
        None \<Rightarrow> None
      | Some (Inl f) \<Rightarrow> Some (Inl f)
      | Some (Inr vm') \<Rightarrow> Some (Inr (running vm' \<or> ip vm' \<ge> length (code c), vm')))"

section \<open>Assembler\<close>

text \<open>
  \<^verbatim>\<open>class Assembler\<close>. It holds a pointer to the chunk it fills; nothing else writes to
  that chunk while it is built, so the chunk is kept in the state. \<^verbatim>\<open>labels\<close> is the
  \<^verbatim>\<open>unordered_map\<close> from names to instruction indices. \<open>asm_cerr\<close> collects the lines
  that \<^verbatim>\<open>resolve\<close> writes to \<^verbatim>\<open>std::cerr\<close>; no member function returns a value.
\<close>

record Assembler =
  chunk :: Chunk
  labels :: "string \<rightharpoonup> nat"
  unresolvedJumps :: "(nat \<times> string) list"
  currentLine :: int
  asm_cerr :: "string list"

definition Assembler_init :: "Chunk \<Rightarrow> Assembler" where
  "Assembler_init c =
     \<lparr>chunk = c, labels = Map.empty, unresolvedJumps = [], currentLine = 1, asm_cerr = []\<rparr>"

definition emit :: "OpCode \<Rightarrow> int32 \<Rightarrow> Assembler \<Rightarrow> Assembler" where
  "emit opc arg a =
     a\<lparr>chunk := write_chunk \<lparr>opcode = opc, operand = arg\<rparr> (currentLine a) (chunk a)\<rparr>"

definition label :: "string \<Rightarrow> Assembler \<Rightarrow> Assembler" where
  "label name a = a\<lparr>labels := (labels a)(name \<mapsto> length (code (chunk a)))\<rparr>"

definition Assembler_push :: "int64 \<Rightarrow> Assembler \<Rightarrow> Assembler" where
  "Assembler_push v a =
     (let (idx, c) = addConstant (INTEGER v) (chunk a)
      in emit PUSH (int32_of_size idx) (a\<lparr>chunk := c\<rparr>))"

definition Assembler_op :: "OpCode \<Rightarrow> Assembler \<Rightarrow> Assembler" where
  "Assembler_op opc a = emit opc 0 a"

definition emit_jump :: "OpCode \<Rightarrow> string \<Rightarrow> Assembler \<Rightarrow> Assembler" where
  "emit_jump opc name a =
     emit opc 0 (a\<lparr>unresolvedJumps := unresolvedJumps a @ [(length (code (chunk a)), name)]\<rparr>)"

definition jump :: "string \<Rightarrow> Assembler \<Rightarrow> Assembler" where
  "jump name a = emit_jump JMP name a"

definition jumpIfFalse :: "string \<Rightarrow> Assembler \<Rightarrow> Assembler" where
  "jumpIfFalse name a = emit_jump JMP_IF_FALSE name a"

definition jumpIfTrue :: "string \<Rightarrow> Assembler \<Rightarrow> Assembler" where
  "jumpIfTrue name a = emit_jump JMP_IF_TRUE name a"

definition loadGlobal :: "int32 \<Rightarrow> Assembler \<Rightarrow> Assembler" where
  "loadGlobal idx a = emit LOAD_GLOBAL idx a"

definition storeGlobal :: "int32 \<Rightarrow> Assembler \<Rightarrow> Assembler" where
  "storeGlobal idx a = emit STORE_GLOBAL idx a"

definition newArray :: "int32 \<Rightarrow> Assembler \<Rightarrow> Assembler" where
  "newArray n a = emit NEW_ARRAY n a"

definition nextLine :: "Assembler \<Rightarrow> Assembler" where
  "nextLine a = a\<lparr>currentLine := currentLine a + 1\<rparr>"

text \<open>
  \<^verbatim>\<open>resolve\<close>: the loop over \<^verbatim>\<open>unresolvedJumps\<close>. A label that is found overwrites the
  operand at the recorded offset (the \<^verbatim>\<open>size_t\<close> narrowed to \<^verbatim>\<open>int32_t\<close>); one that is
  not found writes a line to \<^verbatim>\<open>std::cerr\<close> and the loop goes on.
\<close>

definition undefined_label_message :: "string \<Rightarrow> string" where
  "undefined_label_message name = ''Error: Undefined label '' @ [CHR 0x27] @ name @ [CHR 0x27]"

definition patch :: "nat \<Rightarrow> nat \<Rightarrow> Chunk \<Rightarrow> Chunk" where
  "patch offset target c =
     c\<lparr>code := (code c)[offset := (code c ! offset)\<lparr>operand := int32_of_size target\<rparr>]\<rparr>"

fun resolve_loop :: "(nat \<times> string) list \<Rightarrow> Assembler \<Rightarrow> Assembler" where
  "resolve_loop [] a = a"
| "resolve_loop ((offset, labelName) # js) a =
     resolve_loop js
       (case labels a labelName of
          Some target \<Rightarrow> a\<lparr>chunk := patch offset target (chunk a)\<rparr>
        | None \<Rightarrow> a\<lparr>asm_cerr := asm_cerr a @ [undefined_label_message labelName]\<rparr>)"

definition resolve :: "Assembler \<Rightarrow> Assembler" where
  "resolve a = resolve_loop (unresolvedJumps a) a"

text \<open>
  The members of an assembler are private: a state is reached from the constructor by
  builder calls only. A build is the list of those calls, in order.
\<close>

datatype BuilderCall =
    Label string
  | Push int64
  | Op OpCode
  | Jump string
  | JumpIfFalse string
  | JumpIfTrue string
  | LoadGlobal int32
  | StoreGlobal int32
  | NewArray int32
  | NextLine

fun call :: "BuilderCall \<Rightarrow> Assembler \<Rightarrow> Assembler" where
  "call (Label name) a = label name a"
| "call (Push v) a = Assembler_push v a"
| "call (Op opc) a = Assembler_op opc a"
| "call (Jump name) a = jump name a"
| "call (JumpIfFalse name) a = jumpIfFalse name a"
| "call (JumpIfTrue name) a = jumpIfTrue name a"
| "call (LoadGlobal idx) a = loadGlobal idx a"
| "call (StoreGlobal idx) a = storeGlobal idx a"
| "call (NewArray n) a = newArray n a"
| "call NextLine a = nextLine a"

fun calls :: "BuilderCall list \<Rightarrow> Assembler \<Rightarrow> Assembler" where
  "calls [] a = a"
| "calls (b # bs) a = calls bs (call b a)"

definition build :: "Chunk \<Rightarrow> BuilderCall list \<Rightarrow> Assembler" where
  "build c bs = calls bs (Assembler_init c)"

section \<open>Notions used in the statements\<close>

text \<open>
  What the mark phase and the sweep phase make of a free store, written as one
  expression each: an object that some root names is marked; a registered object is
  then freed if it is unmarked and unmarked if it is marked.
\<close>

definition is_marked :: "heap \<Rightarrow> addr \<Rightarrow> bool" where
  "is_marked h a = (case h a of None \<Rightarrow> False | Some ob \<Rightarrow> marked ob)"

definition marked_heap :: "Value list \<Rightarrow> heap \<Rightarrow> heap" where
  "marked_heap vs h =
     (\<lambda>a. if OBJECT (Some a) \<in> set vs then map_option (set_marked True) (h a) else h a)"

definition swept_heap :: "addr list \<Rightarrow> heap \<Rightarrow> heap" where
  "swept_heap as h =
     (\<lambda>x. if x \<in> set as
          then (if is_marked h x then map_option (set_marked False) (h x) else None)
          else h x)"

text \<open>The constructor \<^verbatim>\<open>Instruction(op, arg)\<close>.\<close>

definition Instr :: "OpCode \<Rightarrow> int32 \<Rightarrow> Instruction" where
  "Instr opc arg = \<lparr>opcode = opc, operand = arg\<rparr>"

text \<open>
  The programs of the testable properties: \<^verbatim>\<open>PUSH a; PUSH b; OP; PRINT\<close>, and
  \<^verbatim>\<open>PUSH a; PUSH 0; OP\<close> followed by any instructions.
\<close>

definition arith_program :: "OpCode \<Rightarrow> int64 \<Rightarrow> int64 \<Rightarrow> Chunk" where
  "arith_program opc a b =
     \<lparr>code = [Instr PUSH 0, Instr PUSH 1, Instr opc 0, Instr PRINT 0],
      constants = [INTEGER a, INTEGER b],
      lines = [1, 1, 1, 1]\<rparr>"

definition zero_divisor_program :: "OpCode \<Rightarrow> int64 \<Rightarrow> Instruction list \<Rightarrow> Chunk" where
  "zero_divisor_program opc a rest =
     \<lparr>code = [Instr PUSH 0, Instr PUSH 1, Instr opc 0] @ rest,
      constants = [INTEGER a, INTEGER 0],
      lines = replicate (3 + length rest) 1\<rparr>"

text \<open>
  The operations of the host language on \<^verbatim>\<open>int64_t\<close>, stated on the integers the
  operands stand for, independently of the machine: the exact sum, difference and
  product reduced to the 64-bit two's complement range; the quotient rounded towards
  zero and the remainder that goes with it, \<open>x - y * (x / y)\<close>. A zero divisor, and the
  one quotient that does not fit (\<open>-2\<^sup>6\<^sup>3 / -1\<close>), have no result.
\<close>

definition wrap64 :: "int \<Rightarrow> int" where
  "wrap64 z = (z + 2 ^ 63) mod 2 ^ 64 - 2 ^ 63"

definition quot_towards_zero :: "int \<Rightarrow> int \<Rightarrow> int" where
  "quot_towards_zero x y =
     (if (x < 0) = (y < 0) then \<bar>x\<bar> div \<bar>y\<bar> else - (\<bar>x\<bar> div \<bar>y\<bar>))"

definition host_int64 :: "OpCode \<Rightarrow> int \<Rightarrow> int \<Rightarrow> int option" where
  "host_int64 opc x y =
     (case opc of
        ADD \<Rightarrow> Some (wrap64 (x + y))
      | SUB \<Rightarrow> Some (wrap64 (x - y))
      | MUL \<Rightarrow> Some (wrap64 (x * y))
      | DIV \<Rightarrow>
          if y = 0 \<or> (x = - (2 ^ 63) \<and> y = - 1) then None
          else Some (quot_towards_zero x y)
      | MOD \<Rightarrow>
          if y = 0 \<or> (x = - (2 ^ 63) \<and> y = - 1) then None
          else Some (x - y * quot_towards_zero x y)
      | _ \<Rightarrow> None)"

text \<open>What a caller can see of a finished \<^verbatim>\<open>execute\<close>.\<close>

definition returned :: "(fault + bool \<times> VM) option \<Rightarrow> bool option" where
  "returned r = (case r of Some (Inr (b, vm)) \<Rightarrow> Some b | _ \<Rightarrow> None)"

definition final :: "(fault + bool \<times> VM) option \<Rightarrow> VM option" where
  "final r = (case r of Some (Inr (b, vm)) \<Rightarrow> Some vm | _ \<Rightarrow> None)"

text \<open>
  A program that allocates eight arrays and pops each one, then does nothing once;
  and the two counters of a machine's collector.
\<close>

definition garbage_program :: Chunk where
  "garbage_program =
     \<lparr>code = [Instr NEW_ARRAY 1, Instr POP 0, Instr NEW_ARRAY 1, Instr POP 0,
              Instr NEW_ARRAY 1, Instr POP 0, Instr NEW_ARRAY 1, Instr POP 0,
              Instr NEW_ARRAY 1, Instr POP 0, Instr NEW_ARRAY 1, Instr POP 0,
              Instr NEW_ARRAY 1, Instr POP 0, Instr NEW_ARRAY 1, Instr POP 0,
              Instr NOP 0],
      constants = [], lines = replicate 17 1\<rparr>"

definition gc_counters :: "VM \<Rightarrow> nat \<times> nat" where
  "gc_counters vm = (nextGC (gc vm), objectCount (gc vm))"

text \<open>
  Four small programs: \<^verbatim>\<open>HALT\<close> followed by one more instruction; a lone \<^verbatim>\<open>POP\<close>; one
  that stores 5 in global 0 and halts; one that prints global 0.
\<close>

definition halt_then_nop :: Chunk where
  "halt_then_nop = \<lparr>code = [Instr HALT 0, Instr NOP 0], constants = [], lines = [1, 1]\<rparr>"

definition pop_only :: Chunk where
  "pop_only = \<lparr>code = [Instr POP 0], constants = [], lines = [1]\<rparr>"

definition store_program :: Chunk where
  "store_program =
     \<lparr>code = [Instr PUSH 0, Instr STORE_GLOBAL 0, Instr HALT 0],
      constants = [INTEGER 5], lines = [1, 1, 1]\<rparr>"

definition load_program :: Chunk where
  "load_program =
     \<lparr>code = [Instr LOAD_GLOBAL 0, Instr PRINT 0], constants = [], lines = [1, 1]\<rparr>"

text \<open>
  What holds of the recorded jumps in every assembler state: each was recorded at the
  index of an instruction that exists, no two at the same index.
\<close>

definition jumps_ok :: "Assembler \<Rightarrow> bool" where
  "jumps_ok a =
     (distinct (map fst (unresolvedJumps a)) \<and>
      (\<forall>j \<in> set (unresolvedJumps a). fst j < length (code (chunk a))))"

text \<open>
  The state the machine keeps its collector in. A value is registered when it is no
  object reference, or refers to an object of the registry. In a sound machine the
  registry names each object once, every registered object is alive, unmarked and
  below the next address to hand out, and every value on the operand stack and in
  the globals is registered. A sound chunk has no object reference among its
  constants (no constructor of the assembler makes one).
\<close>

definition registered :: "GarbageCollector \<Rightarrow> Value \<Rightarrow> bool" where
  "registered g v = (\<forall>p. v = OBJECT p \<longrightarrow> (\<exists>a. p = Some a \<and> a \<in> set (objects g)))"

definition vm_ok :: "VM \<Rightarrow> bool" where
  "vm_ok vm =
     (distinct (objects (gc vm)) \<and>
      (\<forall>a \<in> set (objects (gc vm)). a < fresh vm \<and> (\<exists>ob. heap vm a = Some ob \<and> \<not> marked ob)) \<and>
      (\<forall>v \<in> set (stack vm) \<union> set (globals vm). registered (gc vm) v))"

definition chunk_ok :: "Chunk \<Rightarrow> bool" where
  "chunk_ok c = (\<forall>p. OBJECT p \<notin> set (constants c))"

definition memory_fault :: "fault \<Rightarrow> bool" where
  "memory_fault f = (f = UseAfterFree \<or> f = NullDeref)"

text \<open>Two programs for the return-address stack: a call that halts, and a lone return.\<close>

definition call_program :: Chunk where
  "call_program = \<lparr>code = [Instr CALL 1, Instr HALT 0], constants = [], lines = [1, 1]\<rparr>"

definition ret_program :: Chunk where
  "ret_program = \<lparr>code = [Instr RET 0, Instr NOP 0], constants = [], lines = [1, 1]\<rparr>"

section \<open>The collector keeps what the roots reach\<close>

lemma set_marked_simps [simp]:
  "marked (set_marked b ob) = b"
  "set_marked b (set_marked b' ob) = set_marked b ob"
  by (cases ob; simp add: set_marked_def)+

lemma set_marked_same: "marked ob = b \<Longrightarrow> set_marked b ob = ob"
  by (cases ob) (auto simp: set_marked_def)

lemma markValue_object:
  "h a = Some ob \<Longrightarrow> markValue (OBJECT (Some a)) h = Inr (h(a \<mapsto> set_marked True ob))"
  by (auto simp: markValue_def markObject_def set_marked_same fun_upd_idem)

lemma markValue_other:
  "(\<forall>a. v \<noteq> OBJECT (Some a)) \<Longrightarrow> markValue v h = Inr h"
  by (cases v) (auto simp: markValue_def)

lemma mark_all_eq:
  "\<forall>a. OBJECT (Some a) \<in> set vs \<longrightarrow> h a \<noteq> None \<Longrightarrow>
   mark_all vs h =
     Inr (\<lambda>a. if OBJECT (Some a) \<in> set vs then map_option (set_marked True) (h a) else h a)"
proof (induction vs arbitrary: h)
  case Nil
  then show ?case by simp
next
  case (Cons v vs)
  show ?case
  proof (cases "\<exists>a. v = OBJECT (Some a)")
    case True
    then obtain a where v: "v = OBJECT (Some a)" by blast
    with Cons.prems obtain ob where ob: "h a = Some ob" by auto
    let ?h = "h(a \<mapsto> set_marked True ob)"
    have first: "mark_all (v # vs) h = mark_all vs ?h"
      using v ob by (simp add: markValue_object)
    have "\<forall>x. OBJECT (Some x) \<in> set vs \<longrightarrow> ?h x \<noteq> None"
      using Cons.prems by auto
    then have rest: "mark_all vs ?h =
        Inr (\<lambda>x. if OBJECT (Some x) \<in> set vs then map_option (set_marked True) (?h x) else ?h x)"
      by (rule Cons.IH)
    have same: "(\<lambda>x. if OBJECT (Some x) \<in> set vs then map_option (set_marked True) (?h x) else ?h x)
        = (\<lambda>x. if OBJECT (Some x) \<in> set (v # vs) then map_option (set_marked True) (h x) else h x)"
      using v ob by (auto simp: fun_eq_iff)
    show ?thesis by (simp only: first rest same)
  next
    case False
    then have first: "mark_all (v # vs) h = mark_all vs h"
      by (simp add: markValue_other)
    have "\<forall>x. OBJECT (Some x) \<in> set vs \<longrightarrow> h x \<noteq> None"
      using Cons.prems by auto
    then have rest: "mark_all vs h =
        Inr (\<lambda>x. if OBJECT (Some x) \<in> set vs then map_option (set_marked True) (h x) else h x)"
      by (rule Cons.IH)
    have same: "(\<lambda>x. if OBJECT (Some x) \<in> set vs then map_option (set_marked True) (h x) else h x)
        = (\<lambda>x. if OBJECT (Some x) \<in> set (v # vs) then map_option (set_marked True) (h x) else h x)"
      using False by (auto simp: fun_eq_iff)
    show ?thesis by (simp only: first rest same)
  qed
qed

lemma filter_is_marked_upd:
  "a \<notin> set as \<Longrightarrow> filter (is_marked (h(a := v))) as = filter (is_marked h) as"
  by (induction as) (auto simp: is_marked_def)

lemma sweep_eq:
  "distinct as \<Longrightarrow> \<forall>a \<in> set as. h a \<noteq> None \<Longrightarrow>
   sweep as h =
     Inr (filter (is_marked h) as,
          \<lambda>x. if x \<in> set as
               then (if is_marked h x then map_option (set_marked False) (h x) else None)
               else h x)"
proof (induction as arbitrary: h)
  case Nil
  then show ?case by simp
next
  case (Cons a as)
  from Cons.prems obtain ob where ob: "h a = Some ob" by auto
  have d: "distinct as" "a \<notin> set as" using Cons.prems by auto
  show ?case
  proof (cases "marked ob")
    case True
    let ?h = "h(a \<mapsto> set_marked False ob)"
    have live: "\<forall>x \<in> set as. ?h x \<noteq> None" using Cons.prems by auto
    have rest: "sweep as ?h =
        Inr (filter (is_marked ?h) as,
             \<lambda>x. if x \<in> set as
                  then (if is_marked ?h x then map_option (set_marked False) (?h x) else None)
                  else ?h x)"
      using d(1) live by (rule Cons.IH)
    have first: "sweep (a # as) h =
        (case sweep as ?h of Inl f \<Rightarrow> Inl f | Inr (kept, h') \<Rightarrow> Inr (a # kept, h'))"
      using ob True by simp
    have kept: "a # filter (is_marked ?h) as = filter (is_marked h) (a # as)"
      using d(2) ob True by (simp add: filter_is_marked_upd) (simp add: is_marked_def)
    have same: "(\<lambda>x. if x \<in> set as
                  then (if is_marked ?h x then map_option (set_marked False) (?h x) else None)
                  else ?h x)
        = (\<lambda>x. if x \<in> set (a # as)
               then (if is_marked h x then map_option (set_marked False) (h x) else None)
               else h x)"
      using d(2) ob True by (auto simp: fun_eq_iff is_marked_def)
    show ?thesis by (simp only: first rest sum.case prod.case kept same)
  next
    case False
    let ?h = "h(a := None)"
    have live: "\<forall>x \<in> set as. ?h x \<noteq> None" using Cons.prems by auto
    have rest: "sweep as ?h =
        Inr (filter (is_marked ?h) as,
             \<lambda>x. if x \<in> set as
                  then (if is_marked ?h x then map_option (set_marked False) (?h x) else None)
                  else ?h x)"
      using d(1) live by (rule Cons.IH)
    have first: "sweep (a # as) h = sweep as ?h"
      using ob False by simp
    have kept: "filter (is_marked ?h) as = filter (is_marked h) (a # as)"
      using d(2) ob False by (simp add: filter_is_marked_upd) (simp add: is_marked_def)
    have same: "(\<lambda>x. if x \<in> set as
                  then (if is_marked ?h x then map_option (set_marked False) (?h x) else None)
                  else ?h x)
        = (\<lambda>x. if x \<in> set (a # as)
               then (if is_marked h x then map_option (set_marked False) (h x) else None)
               else h x)"
      using d(2) ob False by (auto simp: fun_eq_iff is_marked_def)
    show ?thesis by (simp only: first rest kept same)
  qed
qed


lemma marked_heap_None [simp]: "marked_heap vs h a = None \<longleftrightarrow> h a = None"
  by (simp add: marked_heap_def)

lemma collect_eq:
  assumes d: "distinct (objects g)"
    and reg: "\<forall>a \<in> set (objects g). h a \<noteq> None"
    and roots: "\<forall>a. OBJECT (Some a) \<in> set (stk @ glob) \<longrightarrow> h a \<noteq> None"
  shows "collect g stk glob h =
           Inr (g\<lparr>objects := filter (is_marked (marked_heap glob (marked_heap stk h))) (objects g),
                  nextGC := max (threshold g)
                    (length (filter (is_marked (marked_heap glob (marked_heap stk h))) (objects g)) * 2)\<rparr>,
                swept_heap (objects g) (marked_heap glob (marked_heap stk h)))"
proof -
  have m1: "mark_all stk h = Inr (marked_heap stk h)"
    unfolding marked_heap_def using roots by (intro mark_all_eq) auto
  have "\<forall>a. OBJECT (Some a) \<in> set glob \<longrightarrow> marked_heap stk h a \<noteq> None"
    using roots by auto
  then have m2: "mark_all glob (marked_heap stk h) = Inr (marked_heap glob (marked_heap stk h))"
    unfolding marked_heap_def [of glob] by (rule mark_all_eq)
  have "\<forall>a \<in> set (objects g). marked_heap glob (marked_heap stk h) a \<noteq> None"
    using reg by simp
  with d have s: "sweep (objects g) (marked_heap glob (marked_heap stk h)) =
      Inr (filter (is_marked (marked_heap glob (marked_heap stk h))) (objects g),
           swept_heap (objects g) (marked_heap glob (marked_heap stk h)))"
    unfolding swept_heap_def by (rule sweep_eq)
  show ?thesis
    by (simp add: collect_def m1 m2 s Let_def max_def not_less)
qed

lemma is_marked_marked_heap:
  "h a = Some ob \<Longrightarrow> \<not> marked ob \<Longrightarrow>
   is_marked (marked_heap glob (marked_heap stk h)) a \<longleftrightarrow> OBJECT (Some a) \<in> set (stk @ glob)"
  by (auto simp: is_marked_def marked_heap_def)

text \<open>
  Claim C2. \<^verbatim>\<open>collect\<close> is run on a collector in the state the data model gives it
  between passes: the registry names each object once, every registered object is
  alive and unmarked, and every object reference among the roots (operand stack and
  globals) points to an object that is alive. Then \<^verbatim>\<open>collect\<close> returns, and afterwards
  the registry holds exactly the registered objects that some root references, in
  their old order; each of them is the object it was, unmarked; every other
  registered object has been freed; and no object that a root references has been
  freed. (An array holds integers only, so the objects reachable from the roots are
  the ones the roots reference. That the machine only ever calls \<^verbatim>\<open>collect\<close> in such a
  state is the subject of the last section.)
\<close>

theorem collect_retains_exactly_the_reachable:
  assumes d: "distinct (objects g)"
    and reg: "\<forall>a \<in> set (objects g). \<exists>ob. h a = Some ob \<and> \<not> marked ob"
    and roots: "\<forall>a. OBJECT (Some a) \<in> set (stk @ glob) \<longrightarrow> h a \<noteq> None"
  shows "\<exists>g' h'. collect g stk glob h = Inr (g', h') \<and>
           objects g' = filter (\<lambda>a. OBJECT (Some a) \<in> set (stk @ glob)) (objects g) \<and>
           (\<forall>a \<in> set (objects g'). h' a = h a \<and> (\<exists>ob. h' a = Some ob \<and> \<not> marked ob)) \<and>
           (\<forall>a \<in> set (objects g) - set (objects g'). h' a = None) \<and>
           (\<forall>a. OBJECT (Some a) \<in> set (stk @ glob) \<longrightarrow> h' a \<noteq> None)"
proof -
  let ?h2 = "marked_heap glob (marked_heap stk h)"
  let ?kept = "filter (is_marked ?h2) (objects g)"
  let ?h' = "swept_heap (objects g) ?h2"
  have reg': "\<forall>a \<in> set (objects g). h a \<noteq> None" using reg by auto
  have c: "collect g stk glob h =
      Inr (g\<lparr>objects := ?kept, nextGC := max (threshold g) (length ?kept * 2)\<rparr>, ?h')"
    using d reg' roots by (rule collect_eq)
  have kept: "?kept = filter (\<lambda>a. OBJECT (Some a) \<in> set (stk @ glob)) (objects g)"
    using reg by (intro filter_cong refl) (metis is_marked_marked_heap)
  have surv: "\<forall>a \<in> set ?kept. ?h' a = h a \<and> (\<exists>ob. ?h' a = Some ob \<and> \<not> marked ob)"
  proof
    fix a assume a: "a \<in> set ?kept"
    then obtain ob where ob: "h a = Some ob" "\<not> marked ob" using reg by auto
    from a have "is_marked ?h2 a" by simp
    moreover from a have "a \<in> set (objects g)" by simp
    moreover have "map_option (set_marked False) (?h2 a) = Some ob"
      using ob by (auto simp: marked_heap_def set_marked_same)
    ultimately have "?h' a = Some ob"
      by (simp only: swept_heap_def if_True)
    then show "?h' a = h a \<and> (\<exists>ob. ?h' a = Some ob \<and> \<not> marked ob)"
      using ob by simp
  qed
  have gone: "\<forall>a \<in> set (objects g) - set ?kept. ?h' a = None"
    by (auto simp: swept_heap_def)
  have live: "\<forall>a. OBJECT (Some a) \<in> set (stk @ glob) \<longrightarrow> ?h' a \<noteq> None"
  proof (intro allI impI)
    fix a assume a: "OBJECT (Some a) \<in> set (stk @ glob)"
    with roots obtain ob where ob: "h a = Some ob" by auto
    have "is_marked ?h2 a" using a ob by (auto simp: is_marked_def marked_heap_def)
    moreover have "?h2 a \<noteq> None" using ob by simp
    then obtain z where "?h2 a = Some z" by (auto simp del: marked_heap_None)
    ultimately show "?h' a \<noteq> None" by (simp add: swept_heap_def del: marked_heap_None)
  qed
  let ?g' = "g\<lparr>objects := ?kept, nextGC := max (threshold g) (length ?kept * 2)\<rparr>"
  have og: "objects ?g' = ?kept" by simp
  show ?thesis
  proof (intro exI conjI)
    show "collect g stk glob h = Inr (?g', ?h')" by (rule c)
    show "objects ?g' = filter (\<lambda>a. OBJECT (Some a) \<in> set (stk @ glob)) (objects g)"
      unfolding og by (rule kept)
    show "\<forall>a \<in> set (objects ?g'). ?h' a = h a \<and> (\<exists>ob. ?h' a = Some ob \<and> \<not> marked ob)"
      unfolding og by (rule surv)
    show "\<forall>a \<in> set (objects g) - set (objects ?g'). ?h' a = None"
      unfolding og by (rule gone)
    show "\<forall>a. OBJECT (Some a) \<in> set (stk @ glob) \<longrightarrow> ?h' a \<noteq> None"
      by (rule live)
  qed
qed

theorem collect_retains_exactly_the_reachable_witness:
  "distinct (objects \<lparr>objects = [0, 1], nextGC = 8, threshold = 8\<rparr>) \<and>
   (\<exists>g' h'. collect \<lparr>objects = [0, 1], nextGC = 8, threshold = 8\<rparr> [OBJECT (Some 1)] [NIL]
               [0 \<mapsto> ArrayObject False [7], 1 \<mapsto> ArrayObject False [9]] = Inr (g', h') \<and>
            objects g' = [1] \<and> h' 0 = None \<and> h' 1 = Some (ArrayObject False [9]))"
  using collect_retains_exactly_the_reachable
    [of "\<lparr>objects = [0, 1], nextGC = 8, threshold = 8\<rparr>"
        "[0 \<mapsto> ArrayObject False [7], 1 \<mapsto> ArrayObject False [9]]"
        "[OBJECT (Some 1)]" "[NIL]"]
  by auto

section \<open>The collection threshold\<close>

lemma mark_all_replicate_NIL: "mark_all (replicate n NIL) h = Inr h"
  by (induction n) (simp_all add: markValue_def)

lemmas vm_eval = execute_def execute_reset_def run.simps step_def gc_check_def dispatch_def
  Instr_def VM_init_def shouldCollect_def GarbageCollector_init_def push_def pop_def peek_def
  runtimeError_def allocate_array_def int_of_size_def final_def returned_def

text \<open>
  Claim C4, as the code has it. \<^verbatim>\<open>shouldCollect\<close> is true exactly when the number of
  registered objects has reached \<^verbatim>\<open>nextGC\<close>. A collection sets \<^verbatim>\<open>nextGC\<close> to twice the
  number of objects that survived it, or to the floor \<^verbatim>\<open>threshold\<close> if that is more;
  the floor itself never changes and is 8 in a new collector, as is \<^verbatim>\<open>nextGC\<close>.
\<close>

theorem threshold_is_twice_the_survivors:
  "(shouldCollect g \<longleftrightarrow> nextGC g \<le> objectCount g) \<and>
   (collect g stk glob h = Inr (g', h') \<longrightarrow>
      threshold g' = threshold g \<and> nextGC g' = max (threshold g) (2 * objectCount g')) \<and>
   threshold GarbageCollector_init = 8 \<and> nextGC GarbageCollector_init = 8"
  by (auto simp: shouldCollect_def objectCount_def collect_def Let_def GarbageCollector_init_def
      split: sum.splits prod.splits)

theorem threshold_is_twice_the_survivors_witness:
  "collect \<lparr>objects = [0], nextGC = 8, threshold = 8\<rparr> [OBJECT (Some 0)] [NIL]
     [0 \<mapsto> ArrayObject False [7]] =
     Inr (\<lparr>objects = [0], nextGC = 8, threshold = 8\<rparr>, [0 \<mapsto> ArrayObject False [7]]) \<and>
   nextGC \<lparr>objects = [0], nextGC = 8, threshold = 8\<rparr> =
     max (threshold \<lparr>objects = [0], nextGC = 8, threshold = 8\<rparr>)
         (2 * objectCount \<lparr>objects = [0], nextGC = 8, threshold = 8\<rparr>)"
proof -
  have c: "collect \<lparr>objects = [0], nextGC = 8, threshold = 8\<rparr> [OBJECT (Some 0)] [NIL]
     [0 \<mapsto> ArrayObject False [7]] =
     Inr (\<lparr>objects = [0], nextGC = 8, threshold = 8\<rparr>, [0 \<mapsto> ArrayObject False [7]])"
    by (simp add: collect_def markValue_def markObject_def set_marked_def)
  show ?thesis
    using c threshold_is_twice_the_survivors
      [where g = "\<lparr>objects = [0], nextGC = 8, threshold = 8\<rparr>" and stk = "[OBJECT (Some 0)]"
         and glob = "[NIL]" and h = "[0 \<mapsto> ArrayObject False [7]]"
         and g' = "\<lparr>objects = [0], nextGC = 8, threshold = 8\<rparr>"
         and h' = "[0 \<mapsto> ArrayObject False [7]]"]
    by simp
qed

text \<open>
  The claim as stated fails: the threshold does not double at every collection. A new
  machine runs the program that allocates eight arrays and pops them. The collector
  runs once, before the last pop, when eight objects are registered and the
  threshold is 8; one array is still on the stack and survives, and the threshold
  after the collection is 8 again, not 16.
\<close>

theorem threshold_not_doubled_counterexample:
  "map_option gc_counters (final (execute 17 garbage_program VM_init)) = Some (8, 1) \<and>
   gc_counters VM_init = (8, 0)"
  by (simp add: vm_eval garbage_program_def collect_def mark_all_replicate_NIL objectCount_def
      markValue_def markObject_def set_marked_def gc_counters_def)

section \<open>Running programs\<close>

text \<open>The dispatch of each opcode, and the loop, one turn at a time.\<close>

lemma dispatch_Instr:
  "dispatch c (Instr PUSH k) vm =
     (if 0 \<le> sint k \<and> sint k < int_of_size (length (constants c))
      then Inr (push (constants c ! nat (sint k)) vm) else Inr vm)"
  "dispatch c (Instr POP k) vm = Inr (snd (pop vm))"
  "dispatch c (Instr DUP k) vm = Inr (push (peek 0 vm) vm)"
  "dispatch c (Instr STORE_GLOBAL k) vm =
     (if global_index (Instr STORE_GLOBAL k) vm
      then Inr (vm\<lparr>globals := (globals vm)[nat (sint k) := peek 0 vm]\<rparr>) else Inr vm)"
  "dispatch c (Instr LOAD_GLOBAL k) vm =
     (if global_index (Instr LOAD_GLOBAL k) vm
      then Inr (push (globals vm ! nat (sint k)) vm) else Inr vm)"
  "dispatch c (Instr JMP_IF_FALSE k) vm =
     (if \<not> isTruthy (peek 0 vm) then Inr (vm\<lparr>ip := size_of_int32 k\<rparr>) else Inr vm)"
  "dispatch c (Instr JMP_IF_TRUE k) vm =
     (if isTruthy (peek 0 vm) then Inr (vm\<lparr>ip := size_of_int32 k\<rparr>) else Inr vm)"
  "dispatch c (Instr HALT k) vm = Inr (vm\<lparr>running := False\<rparr>)"
  "dispatch c (Instr NOP k) vm = Inr vm"
  "dispatch c (Instr PRINT k) vm =
     (let (v, vm1) = pop vm in
      case toString v (heap vm1) of
        Inl f \<Rightarrow> Inl f
      | Inr s \<Rightarrow> Inr (vm1\<lparr>cout := cout vm1 @ [s]\<rparr>))"
  "dispatch c (Instr RET k) vm =
     (if callStack vm \<noteq> []
      then Inr (vm\<lparr>ip := last (callStack vm), callStack := butlast (callStack vm)\<rparr>)
      else Inr (vm\<lparr>running := False\<rparr>))"
  "dispatch c (Instr CALL k) vm =
     Inr (vm\<lparr>callStack := callStack vm @ [ip vm], ip := size_of_int32 k\<rparr>)"
  by (simp_all add: dispatch_def Instr_def)

lemma dispatch_binary:
  "opc \<in> {ADD, SUB, MUL, DIV, MOD} \<Longrightarrow>
   dispatch c (Instr opc k) vm =
     (case binaryOp opc vm of Inl f \<Rightarrow> Inl f | Inr (v, vm') \<Rightarrow> Inr (push v vm'))"
  by (auto simp: dispatch_def Instr_def)

lemma step_no_gc:
  "\<not> shouldCollect (gc vm) \<Longrightarrow> step c vm = dispatch c (code c ! ip vm) (vm\<lparr>ip := ip vm + 1\<rparr>)"
  by (simp add: step_def gc_check_def)

lemma run_Suc:
  "run (Suc k) c vm =
     (if running vm \<and> ip vm < length (code c)
      then (case step c vm of Inl f \<Rightarrow> Some (Inl f) | Inr vm' \<Rightarrow> run k c vm')
      else Some (Inr vm))"
  by (subst run.simps) simp

lemma run_stopped: "\<not> running vm \<Longrightarrow> run n c vm = Some (Inr vm)"
  by (subst run.simps) simp

lemma run_past_end: "length (code c) \<le> ip vm \<Longrightarrow> run n c vm = Some (Inr vm)"
  by (subst run.simps) simp

lemma int_of_size_small: "n < 2 ^ 31 \<Longrightarrow> int_of_size n = int n"
  unfolding int_of_size_def
  by (simp add: signed_of_nat signed_take_bit_int_eq_self)

lemma int_of_size_2: "int_of_size (Suc (Suc 0)) = 2"
  by (simp add: int_of_size_small)

lemma VM_init_no_gc: "\<not> shouldCollect (gc VM_init)"
  by (simp add: VM_init_def shouldCollect_def GarbageCollector_init_def)

lemma digits_small:
  "digits (Suc 0) = ''1''"
  "digits (Suc (Suc 0)) = ''2''"
  "digits (Suc (Suc (Suc 0))) = ''3''"
  by (simp_all add: digits.simps digit_char_def)

section \<open>Division and modulo by zero\<close>

text \<open>
  Claim C3, as the code has it. A machine whose collector is not due runs
  \<^verbatim>\<open>PUSH a; PUSH 0; DIV\<close> (or \<^verbatim>\<open>MOD\<close>), followed by any instructions, with three turns of
  fuel or more. It does not fault and the run ends after the third instruction: the
  machine is stopped, the diagnostic \<^verbatim>\<open>Division by zero\<close> (\<^verbatim>\<open>Modulo by zero\<close>) is on
  \<^verbatim>\<open>std::cerr\<close> with the instruction pointer 3, nothing was printed and no integer was
  computed. The operand stack is not empty, though: \<^verbatim>\<open>binaryOp\<close> returns \<^verbatim>\<open>Value::Nil()\<close>
  after the error and \<^verbatim>\<open>execute\<close> pushes what \<^verbatim>\<open>binaryOp\<close> returns, so the stack holds
  that one \<^verbatim>\<open>Nil\<close>. The value \<^verbatim>\<open>execute\<close> returns is true exactly when nothing follows
  the division.
\<close>

theorem zero_divisor_stops_with_diagnostic:
  assumes "\<not> shouldCollect (gc vm)" and "opc = DIV \<or> opc = MOD"
  shows "execute (Suc (Suc (Suc n))) (zero_divisor_program opc a rest) vm =
           Some (Inr (rest = [],
             vm\<lparr>ip := 3, running := False, stack := [NIL],
                cerr := cerr vm @
                  [''Runtime Error: '' @
                     (if opc = DIV then ''Division by zero'' else ''Modulo by zero''),
                   ''  at instruction 3'']\<rparr>))"
proof -
  have b: "opc \<in> {ADD, SUB, MUL, DIV, MOD}" using assms(2) by auto
  show ?thesis
    using assms
    by (auto simp: execute_def execute_reset_def zero_divisor_program_def run_Suc step_no_gc
      dispatch_Instr dispatch_binary [OF b] push_def int_of_size_small binaryOp_def pop_def
      runtimeError_def digits_small run_stopped numeral_3_eq_3)
qed


theorem zero_divisor_stops_with_diagnostic_witness:
  "\<not> shouldCollect (gc VM_init) \<and> (DIV = DIV \<or> DIV = MOD) \<and>
   returned (execute 3 (zero_divisor_program DIV 7 []) VM_init) = Some True \<and>
   map_option stack (final (execute 3 (zero_divisor_program DIV 7 []) VM_init)) = Some [NIL] \<and>
   map_option cerr (final (execute 3 (zero_divisor_program DIV 7 []) VM_init)) =
     Some [''Runtime Error: Division by zero'', ''  at instruction 3'']"
  using zero_divisor_stops_with_diagnostic
      [where vm = VM_init and opc = DIV and a = 7 and rest = "[]" and n = 0] VM_init_no_gc
  by (simp add: final_def returned_def eval_nat_numeral VM_init_def)


text \<open>
  The claim as stated fails at \<open>a = 7\<close>: after the failed division a value is on the
  operand stack.
\<close>

theorem zero_divisor_leaves_nil_counterexample:
  "map_option stack (final (execute 3 (zero_divisor_program DIV 7 []) VM_init)) = Some [NIL]"
  by (simp add: vm_eval zero_divisor_program_def binaryOp_def)

section \<open>Arithmetic\<close>

lemma wrap64_sint: "wrap64 z = sint (word_of_int z :: int64)"
  by (simp add: wrap64_def sint_sbintrunc' signed_take_bit_eq_take_bit_shift take_bit_eq_mod)

lemma sint_arith_wrap64:
  "sint (a + b) = wrap64 (sint a + sint b)"
  "sint (a - b) = wrap64 (sint a - sint b)"
  "sint (a * b) = wrap64 (sint a * sint b)"
  for a b :: int64
  by (simp_all add: wrap64_sint)

lemma quot_towards_zero_sdiv: "quot_towards_zero x y = x sdiv y"
  by (auto simp: quot_towards_zero_def signed_divide_int_def sgn_if)

lemma sdiv_fits:
  fixes x y :: int
  assumes "- (2 ^ 63) \<le> x" "x < 2 ^ 63" "\<not> (x = - (2 ^ 63) \<and> y = - 1)"
  shows "- (2 ^ 63) \<le> x sdiv y \<and> x sdiv y < 2 ^ 63"
proof -
  have r: "x sdiv y \<in> {- \<bar>x\<bar>..\<bar>x\<bar>}" by (rule sdiv_int_range)
  have "x sdiv y \<noteq> 2 ^ 63"
  proof
    assume q: "x sdiv y = 2 ^ 63"
    with r assms have x: "x = - (2 ^ 63)" by auto
    then have "x sdiv y = - x" using q by simp
    moreover have "x \<noteq> 0" using x by simp
    ultimately have "y = - 1" by simp
    with x assms(3) show False by simp
  qed
  with r assms show ?thesis by auto
qed

lemma smod_fits:
  fixes x y :: int
  assumes "- (2 ^ 63) \<le> y" "y < 2 ^ 63" "y \<noteq> 0"
  shows "- (2 ^ 63) \<le> x smod y \<and> x smod y < 2 ^ 63"
  using smod_int_range [of y x] assms by auto

lemma sint_word_of_int_fits:
  "- (2 ^ 63) \<le> z \<Longrightarrow> z < 2 ^ 63 \<Longrightarrow> sint (word_of_int z :: int64) = z"
  by (simp add: sint_sbintrunc' signed_take_bit_int_eq_self)

lemma sint64_range: "- (2 ^ 63) \<le> sint a \<and> sint a < 2 ^ 63" for a :: int64
  using sint_ge [of a] sint_lt [of a] by simp


lemma word_of_int_wrap64: "(word_of_int (wrap64 z) :: int64) = word_of_int z"
  by (simp add: wrap64_sint)

lemma host_int64_fits:
  fixes a b :: int64
  assumes "host_int64 opc (sint a) (sint b) = Some r"
  shows "sint (word_of_int r :: int64) = r"
proof (cases "opc = DIV \<or> opc = MOD")
  case True
  with assms have ok: "sint b \<noteq> 0" "\<not> (sint a = - (2 ^ 63) \<and> sint b = - 1)"
    by (auto simp: host_int64_def split: if_splits)
  have ra: "- (2 ^ 63) \<le> sint a" "sint a < 2 ^ 63" and rb: "- (2 ^ 63) \<le> sint b" "sint b < 2 ^ 63"
    using sint64_range [of a] sint64_range [of b] by auto
  from True show ?thesis
  proof
    assume "opc = DIV"
    with assms ok have "r = sint a sdiv sint b"
      by (auto simp: host_int64_def quot_towards_zero_sdiv split: if_splits)
    with sdiv_fits [OF ra ok(2)] show ?thesis by (simp add: sint_word_of_int_fits)
  next
    assume "opc = MOD"
    with assms ok have "r = sint a smod sint b"
      by (auto simp: host_int64_def quot_towards_zero_sdiv minus_mult_sdiv_eq_smod
          split: if_splits)
    with smod_fits [OF rb ok(1)] show ?thesis by (simp add: sint_word_of_int_fits)
  qed
next
  case False
  with assms obtain z where "r = wrap64 z"
    by (cases opc) (auto simp: host_int64_def)
  then show ?thesis by (simp add: word_of_int_wrap64) (simp add: wrap64_sint)
qed

lemma binaryOp_two_integers:
  assumes st: "stack vm = [INTEGER a, INTEGER b]"
    and opc: "opc \<in> {ADD, SUB, MUL, DIV, MOD}"
    and nz: "opc \<in> {DIV, MOD} \<longrightarrow> b \<noteq> 0"
  shows "binaryOp opc vm =
           (case host_int64 opc (sint a) (sint b) of
              Some r \<Rightarrow> Inr (INTEGER (word_of_int r), vm\<lparr>stack := []\<rparr>)
            | None \<Rightarrow> Inl DivOverflow)"
proof -
  have pops: "pop vm = (INTEGER b, vm\<lparr>stack := [INTEGER a]\<rparr>)"
    "pop (vm\<lparr>stack := [INTEGER a]\<rparr>) = (INTEGER a, vm\<lparr>stack := []\<rparr>)"
    using st by (simp_all add: pop_def)
  have z: "sint b = 0 \<longleftrightarrow> b = 0" by (simp add: signed_eq_0_iff)
  from opc consider "opc = ADD" | "opc = SUB" | "opc = MUL" | "opc = DIV" | "opc = MOD"
    by auto
  then show ?thesis
  proof cases
    case 1 then show ?thesis
      by (simp add: binaryOp_def pops host_int64_def word_of_int_wrap64)
  next
    case 2 then show ?thesis
      by (simp add: binaryOp_def pops host_int64_def word_of_int_wrap64)
  next
    case 3 then show ?thesis
      by (simp add: binaryOp_def pops host_int64_def word_of_int_wrap64)
  next
    case 4 with nz show ?thesis
      by (simp add: binaryOp_def pops host_int64_def z quot_towards_zero_sdiv)
  next
    case 5 with nz show ?thesis
      by (simp add: binaryOp_def pops host_int64_def z quot_towards_zero_sdiv
          minus_mult_sdiv_eq_smod)
  qed
qed

text \<open>
  The whole run of \<^verbatim>\<open>PUSH a; PUSH b; OP; PRINT\<close>, whatever the host's operation makes of
  the operands.
\<close>

lemma arith_program_run:
  assumes gc: "\<not> shouldCollect (gc vm)"
    and opc: "opc \<in> {ADD, SUB, MUL, DIV, MOD}"
    and nz: "opc \<in> {DIV, MOD} \<longrightarrow> b \<noteq> 0"
  shows "execute (Suc (Suc (Suc (Suc n)))) (arith_program opc a b) vm =
           (case host_int64 opc (sint a) (sint b) of
              Some r \<Rightarrow>
                Some (Inr (True,
                  vm\<lparr>ip := 4, running := True, stack := [],
                     cout := cout vm @ [Text (to_string r)]\<rparr>))
            | None \<Rightarrow> Some (Inl DivOverflow))"
proof -
  let ?c = "arith_program opc a b"
  let ?vm0 = "vm\<lparr>ip := 0, running := True, stack := []\<rparr>"
  let ?vm2 = "vm\<lparr>ip := 2, running := True, stack := [INTEGER a, INTEGER b]\<rparr>"
  have two: "run (Suc (Suc (Suc (Suc n)))) ?c ?vm0 = run (Suc (Suc n)) ?c ?vm2"
    using gc
    by (simp add: arith_program_def run_Suc step_no_gc dispatch_Instr push_def
        int_of_size_2 numeral_2_eq_2)
  have b: "binaryOp opc (?vm2\<lparr>ip := 3\<rparr>) =
           (case host_int64 opc (sint a) (sint b) of
              Some r \<Rightarrow> Inr (INTEGER (word_of_int r), ?vm2\<lparr>ip := 3, stack := []\<rparr>)
            | None \<Rightarrow> Inl DivOverflow)"
    using binaryOp_two_integers [of "?vm2\<lparr>ip := 3\<rparr>" a b opc] opc nz by simp
  show ?thesis
  proof (cases "host_int64 opc (sint a) (sint b)")
    case None
    with b gc opc show ?thesis
      by (simp add: execute_def execute_reset_def two)
         (simp add: arith_program_def run_Suc step_no_gc dispatch_binary)
  next
    case (Some r)
    have fits: "sint (word_of_int r :: int64) = r" using Some by (rule host_int64_fits)
    from Some b gc opc show ?thesis
      by (simp add: execute_def execute_reset_def two)
         (simp add: arith_program_def run_Suc step_no_gc dispatch_binary dispatch_Instr
            push_def pop_def toString_def fits run_past_end numeral_2_eq_2 numeral_3_eq_3
            eval_nat_numeral)
  qed
qed

text \<open>
  Claim C9, as the code has it. A machine whose collector is not due runs
  \<^verbatim>\<open>PUSH a; PUSH b; OP; PRINT\<close> for \<^verbatim>\<open>OP\<close> one of \<^verbatim>\<open>ADD\<close>, \<^verbatim>\<open>SUB\<close>, \<^verbatim>\<open>MUL\<close>, \<^verbatim>\<open>DIV\<close>, \<^verbatim>\<open>MOD\<close>,
  with four turns of fuel or more; for \<^verbatim>\<open>DIV\<close> and \<^verbatim>\<open>MOD\<close>, \<open>b\<close> is not 0 and the operands
  are not \<open>a = -2\<^sup>6\<^sup>3\<close> with \<open>b = -1\<close>. Then the host language's operation on the signed
  64-bit values of \<open>a\<close> (left) and \<open>b\<close> (right) has a result, the run ends past the last
  instruction, \<^verbatim>\<open>execute\<close> returns true, the stack is empty and the one line printed is
  the decimal text of exactly that result.
\<close>

theorem arithmetic_prints_host_result:
  assumes gc: "\<not> shouldCollect (gc vm)"
    and opc: "opc \<in> {ADD, SUB, MUL, DIV, MOD}"
    and dom: "opc \<in> {DIV, MOD} \<longrightarrow> b \<noteq> 0 \<and> \<not> (sint a = - (2 ^ 63) \<and> sint b = - 1)"
  shows "\<exists>r. host_int64 opc (sint a) (sint b) = Some r \<and>
           execute (Suc (Suc (Suc (Suc n)))) (arith_program opc a b) vm =
             Some (Inr (True,
               vm\<lparr>ip := 4, running := True, stack := [],
                  cout := cout vm @ [Text (to_string r)]\<rparr>))"
proof -
  have nz: "opc \<in> {DIV, MOD} \<longrightarrow> b \<noteq> 0" using dom by simp
  have z: "sint b = 0 \<longleftrightarrow> b = 0" by (simp add: signed_eq_0_iff)
  from opc dom z obtain r where r: "host_int64 opc (sint a) (sint b) = Some r"
    by (auto simp: host_int64_def)
  with arith_program_run [OF gc opc nz, of n a] show ?thesis by simp
qed

theorem arithmetic_prints_host_result_witness:
  "\<not> shouldCollect (gc VM_init) \<and> DIV \<in> {ADD, SUB, MUL, DIV, MOD} \<and>
   (2 :: int64) \<noteq> 0 \<and> \<not> (sint (- 7 :: int64) = - (2 ^ 63) \<and> sint (2 :: int64) = - 1) \<and>
   host_int64 DIV (sint (- 7 :: int64)) (sint (2 :: int64)) = Some (- 3) \<and>
   map_option cout (final (execute 4 (arith_program DIV (- 7) 2) VM_init)) = Some [Text ''-3'']"
  using arithmetic_prints_host_result
      [where vm = VM_init and opc = DIV and a = "- 7" and b = 2 and n = 0] VM_init_no_gc
  by (simp add: host_int64_def quot_towards_zero_def final_def to_string_def digits_small
      eval_nat_numeral VM_init_def)

text \<open>
  The claim as stated fails at \<open>a = -2\<^sup>6\<^sup>3\<close>, \<open>b = -1\<close>, where \<open>b \<noteq> 0\<close>: \<^verbatim>\<open>binaryOp\<close> guards
  the division against a zero divisor only, the quotient does not fit \<^verbatim>\<open>int64_t\<close>, and
  the run of \<^verbatim>\<open>PUSH a; PUSH b; DIV; PRINT\<close> (and of the same with \<^verbatim>\<open>MOD\<close>) on a new machine
  ends in the trap of the division, with nothing printed.
\<close>

theorem division_overflow_counterexample:
  "(- 1 :: int64) \<noteq> 0 \<and>
   execute 4 (arith_program DIV (- 9223372036854775808) (- 1)) VM_init = Some (Inl DivOverflow) \<and>
   execute 4 (arith_program MOD (- 9223372036854775808) (- 1)) VM_init = Some (Inl DivOverflow) \<and>
   map_option cout (final (execute 4 (arith_program DIV (- 9223372036854775808) (- 1)) VM_init)) =
     None"
  by (simp add: vm_eval arith_program_def binaryOp_def)

section \<open>What \<^verbatim>\<open>execute\<close> returns\<close>

lemma run_ends:
  "run n c vm = Some (Inr vm') \<Longrightarrow> \<not> (running vm' \<and> ip vm' < length (code c))"
proof (induction n arbitrary: vm)
  case 0
  then show ?case by (subst (asm) run.simps) (auto split: if_splits)
next
  case (Suc n)
  then show ?case by (auto simp: run_Suc split: if_splits sum.splits)
qed

lemma execute_returns_past_end:
  "execute n c vm = Some (Inr (b, vm')) \<Longrightarrow> b = (length (code c) \<le> ip vm')"
  by (auto simp: execute_def split: option.splits sum.splits dest: run_ends)

text \<open>
  Claim C1 does not hold of the code. \<^verbatim>\<open>HALT\<close>, \<^verbatim>\<open>RET\<close> on an empty return stack and
  every runtime error clear the same flag \<^verbatim>\<open>running\<close>, and \<^verbatim>\<open>execute\<close> returns
  \<^verbatim>\<open>running || ip >= chunk->code.size()\<close>: whether the instruction pointer ended at or
  past the end of the chunk (\<open>execute_returns_past_end\<close>), not whether the run was free
  of errors. A new machine that runs \<^verbatim>\<open>HALT; NOP\<close> halts, nothing is written to
  \<^verbatim>\<open>std::cerr\<close>, and \<^verbatim>\<open>execute\<close> returns false. A new machine that runs the single
  instruction \<^verbatim>\<open>POP\<close> underflows its stack, reports the runtime error, and \<^verbatim>\<open>execute\<close>
  returns true.
\<close>

theorem execute_result_is_not_the_error_state:
  "returned (execute 1 halt_then_nop VM_init) = Some False \<and>
   map_option cerr (final (execute 1 halt_then_nop VM_init)) = Some [] \<and>
   returned (execute 1 pop_only VM_init) = Some True \<and>
   map_option cerr (final (execute 1 pop_only VM_init)) =
     Some [''Runtime Error: Stack underflow'', ''  at instruction 1'']"
  by (simp add: vm_eval halt_then_nop_def pop_only_def digits_small)

section \<open>State across calls of \<^verbatim>\<open>execute\<close>\<close>

text \<open>
  Claim C7, as the code has it by design. \<^verbatim>\<open>execute\<close> starts by setting the instruction
  pointer to 0, \<^verbatim>\<open>running\<close> to true and the operand stack to empty, so a run does not
  depend on the instruction pointer, the stack or the flag the machine had before.
  The global table is made once, by the constructor (256 \<^verbatim>\<open>Nil\<close> slots); \<^verbatim>\<open>execute\<close>
  leaves it, the collector and the free store as the previous run left them, and the
  new run starts from those.
\<close>

theorem execute_resets_stack_and_ip:
  "execute n c (vm\<lparr>ip := i, stack := s, running := r\<rparr>) = execute n c vm \<and>
   ip (execute_reset vm) = 0 \<and> stack (execute_reset vm) = [] \<and> running (execute_reset vm) \<and>
   globals (execute_reset vm) = globals vm \<and> gc (execute_reset vm) = gc vm \<and>
   heap (execute_reset vm) = heap vm \<and>
   globals VM_init = replicate 256 NIL"
  by (simp add: execute_def execute_reset_def VM_init_def)

text \<open>
  The return-address stack is not among the members \<^verbatim>\<open>execute\<close> resets either: after a
  run of \<^verbatim>\<open>CALL 1; HALT\<close> it holds the address 1, and a following run of \<^verbatim>\<open>RET; NOP\<close>
  returns to that address and runs to the end, where on a new machine the \<^verbatim>\<open>RET\<close>
  halts.
\<close>

lemma call_stack_survives_execute:
  "returned (Option.bind (final (execute 2 call_program VM_init)) (execute 2 ret_program)) =
     Some True \<and>
   returned (execute 2 ret_program VM_init) = Some False"
  by (simp add: vm_eval call_program_def ret_program_def size_of_int32_def)

text \<open>
  The claim as stated fails: the globals of a previous run influence the next one. A
  new machine runs \<^verbatim>\<open>PUSH 5; STORE_GLOBAL 0; HALT\<close> and then, in a second call of
  \<^verbatim>\<open>execute\<close>, \<^verbatim>\<open>LOAD_GLOBAL 0; PRINT\<close>: it prints 5, where a new machine prints nil.
\<close>

theorem globals_persist_counterexample:
  "map_option cout (final (Option.bind (final (execute 3 store_program VM_init))
                                       (execute 2 load_program))) = Some [Text ''5''] \<and>
   map_option cout (final (execute 2 load_program VM_init)) = Some [Text ''nil'']"
  by (simp add: vm_eval store_program_def load_program_def global_index_def toString_def
      to_string_def digits.simps digit_char_def)

section \<open>Instructions that peek\<close>

lemma Instr_sel: "opcode (Instr opc k) = opc" "operand (Instr opc k) = k"
  by (simp_all add: Instr_def)

lemma int_of_size_le: "int_of_size n \<le> int n"
  by (simp add: int_of_size_def signed_of_nat signed_take_bit_int_less_eq_self_iff)

lemma peek_top: "stack vm \<noteq> [] \<Longrightarrow> peek 0 vm = last (stack vm)"
  by (simp add: peek_def last_conv_nth)

text \<open>
  Claim C8. The instruction is \<^verbatim>\<open>STORE_GLOBAL k\<close> with \<open>k\<close> in range, that is
  \<open>0 \<le> k\<close> and \<open>k\<close> below \<^verbatim>\<open>(int)globals.size()\<close> (256 in a machine), and the operand
  stack is not empty. Then the instruction does not fault, the slot \<open>k\<close> of the globals
  holds the value on top of the stack afterwards, and the machine is otherwise as
  before: in particular the operand stack is the same, with the stored value still
  on top.
\<close>

theorem store_global_peeks:
  assumes "0 \<le> sint k" and "sint k < int_of_size (length (globals vm))" and "stack vm \<noteq> []"
  shows "dispatch c (Instr STORE_GLOBAL k) vm =
           Inr (vm\<lparr>globals := (globals vm)[nat (sint k) := last (stack vm)]\<rparr>) \<and>
         (globals vm)[nat (sint k) := last (stack vm)] ! nat (sint k) = last (stack vm) \<and>
         stack (vm\<lparr>globals := (globals vm)[nat (sint k) := last (stack vm)]\<rparr>) = stack vm"
proof -
  have "nat (sint k) < length (globals vm)"
    using assms int_of_size_le [of "length (globals vm)"] by linarith
  then show ?thesis
    using assms by (simp add: dispatch_Instr global_index_def Instr_sel peek_top)
qed

theorem store_global_peeks_witness:
  "0 \<le> sint (3 :: int32) \<and> sint (3 :: int32) < int_of_size (length (globals VM_init)) \<and>
   stack (VM_init\<lparr>stack := [INTEGER 1, INTEGER 5]\<rparr>) \<noteq> [] \<and>
   map_sum id stack (dispatch Chunk_init (Instr STORE_GLOBAL 3)
      (VM_init\<lparr>stack := [INTEGER 1, INTEGER 5]\<rparr>)) = Inr [INTEGER 1, INTEGER 5] \<and>
   map_sum id (\<lambda>vm. globals vm ! 3) (dispatch Chunk_init (Instr STORE_GLOBAL 3)
      (VM_init\<lparr>stack := [INTEGER 1, INTEGER 5]\<rparr>)) = Inr (INTEGER 5)"
  using store_global_peeks
    [where k = 3 and vm = "VM_init\<lparr>stack := [INTEGER 1, INTEGER 5]\<rparr>" and c = Chunk_init]
  by (simp add: VM_init_def int_of_size_small)

text \<open>
  Claim C10. \<^verbatim>\<open>peek\<close> at a distance the stack does not reach is \<^verbatim>\<open>Nil\<close>. On an empty
  stack \<^verbatim>\<open>DUP\<close> makes the stack the single \<^verbatim>\<open>Nil\<close>; \<^verbatim>\<open>STORE_GLOBAL\<close> with an index in
  range stores \<^verbatim>\<open>Nil\<close> in its slot; \<^verbatim>\<open>JMP_IF_FALSE\<close> takes the jump. And whatever the
  stack, none of the four instructions that peek (\<^verbatim>\<open>DUP\<close>, \<^verbatim>\<open>STORE_GLOBAL\<close>,
  \<^verbatim>\<open>JMP_IF_FALSE\<close>, \<^verbatim>\<open>JMP_IF_TRUE\<close>) faults, stops the machine or writes a diagnostic.
\<close>

theorem peeking_never_underflows:
  "(length (stack vm) \<le> d \<longrightarrow> peek d vm = NIL) \<and>
   (stack vm = [] \<longrightarrow> dispatch c (Instr DUP k) vm = Inr (vm\<lparr>stack := [NIL]\<rparr>)) \<and>
   (stack vm = [] \<and> global_index (Instr STORE_GLOBAL k) vm \<longrightarrow>
      dispatch c (Instr STORE_GLOBAL k) vm =
        Inr (vm\<lparr>globals := (globals vm)[nat (sint k) := NIL]\<rparr>)) \<and>
   (stack vm = [] \<longrightarrow>
      dispatch c (Instr JMP_IF_FALSE k) vm = Inr (vm\<lparr>ip := size_of_int32 k\<rparr>)) \<and>
   (opc \<in> {DUP, STORE_GLOBAL, JMP_IF_FALSE, JMP_IF_TRUE} \<longrightarrow>
      (\<exists>vm'. dispatch c (Instr opc k) vm = Inr vm' \<and>
             running vm' = running vm \<and> cerr vm' = cerr vm))"
  by (auto simp: dispatch_Instr peek_def push_def isTruthy_def)

theorem peeking_never_underflows_witness:
  "length (stack VM_init) \<le> 0 \<and> peek 0 VM_init = NIL \<and> stack VM_init = [] \<and>
   map_sum id stack (dispatch Chunk_init (Instr DUP 0) VM_init) = Inr [NIL] \<and>
   global_index (Instr STORE_GLOBAL 7) (VM_init\<lparr>globals := replicate 256 (INTEGER 1)\<rparr>) \<and>
   map_sum id (\<lambda>vm. globals vm ! 7) (dispatch Chunk_init (Instr STORE_GLOBAL 7)
       (VM_init\<lparr>globals := replicate 256 (INTEGER 1)\<rparr>)) = Inr NIL \<and>
   map_sum id ip (dispatch Chunk_init (Instr JMP_IF_FALSE 9) VM_init) = Inr 9 \<and>
   map_sum id running (dispatch Chunk_init (Instr JMP_IF_FALSE 9) VM_init) = Inr True \<and>
   map_sum id cerr (dispatch Chunk_init (Instr JMP_IF_FALSE 9) VM_init) = Inr []"
  using peeking_never_underflows
    [where vm = VM_init and d = 0 and c = Chunk_init and k = 0 and opc = DUP]
    peeking_never_underflows
    [where vm = "VM_init\<lparr>globals := replicate 256 (INTEGER 1)\<rparr>" and d = 0 and c = Chunk_init
       and k = 7 and opc = STORE_GLOBAL]
    peeking_never_underflows
    [where vm = VM_init and d = 0 and c = Chunk_init and k = 9 and opc = JMP_IF_FALSE]
  by (auto simp: VM_init_def global_index_def Instr_sel int_of_size_small size_of_int32_def)

section \<open>Labels\<close>

lemmas asm_defs = label_def Assembler_push_def Assembler_op_def emit_def emit_jump_def jump_def
  jumpIfFalse_def jumpIfTrue_def loadGlobal_def storeGlobal_def newArray_def nextLine_def
  write_chunk_def addConstant_def

lemma asm_cerr_call: "asm_cerr (call b a) = asm_cerr a"
  by (cases b) (simp_all add: asm_defs Let_def)

lemma asm_cerr_calls: "asm_cerr (calls bs a) = asm_cerr a"
  by (induction bs arbitrary: a) (simp_all add: asm_cerr_call)

text \<open>
  Claim C5, as the code has it. \<^verbatim>\<open>label(name)\<close> assigns \<^verbatim>\<open>labels[name]\<close>: it records the
  current instruction count as the target of the name whether or not the name has a
  target already. When \<^verbatim>\<open>label(name)\<close> is called, any builder calls follow, and
  \<^verbatim>\<open>label(name)\<close> is called again, the target of the name is the instruction count at
  the second call; the second call changes nothing in the chunk and, like the calls
  before it, writes nothing to \<^verbatim>\<open>std::cerr\<close>.
\<close>

theorem label_overwrites_silently:
  "labels (label name (calls bs (label name a))) name =
     Some (length (code (chunk (calls bs (label name a))))) \<and>
   asm_cerr (label name (calls bs (label name a))) = asm_cerr a \<and>
   chunk (label name (calls bs (label name a))) = chunk (calls bs (label name a))"
  by (simp add: label_def asm_cerr_calls [of bs "label name a", unfolded label_def])

text \<open>
  The claim as stated fails: in the build \<^verbatim>\<open>label("L"); op(NOP); label("L")\<close> the first
  target of \<open>L\<close>, 0, is replaced by 1 and no error is reported.
\<close>

theorem label_redefinition_counterexample:
  "labels (build Chunk_init [Label ''L'', Op NOP]) ''L'' = Some 0 \<and>
   labels (build Chunk_init [Label ''L'', Op NOP, Label ''L'']) ''L'' = Some 1 \<and>
   asm_cerr (build Chunk_init [Label ''L'', Op NOP, Label ''L'']) = []"
  by (simp add: build_def Assembler_init_def Chunk_init_def asm_defs)

section \<open>Resolving jumps\<close>

lemma jumps_ok_init: "jumps_ok (Assembler_init c)"
  by (simp add: jumps_ok_def Assembler_init_def)

lemma jumps_ok_emit: "jumps_ok a \<Longrightarrow> jumps_ok (emit opc k a)"
  by (auto simp: jumps_ok_def emit_def write_chunk_def)

lemma jumps_ok_emit_jump: "jumps_ok a \<Longrightarrow> jumps_ok (emit_jump opc name a)"
  by (fastforce simp: jumps_ok_def emit_jump_def emit_def write_chunk_def)

lemma jumps_ok_call: "jumps_ok a \<Longrightarrow> jumps_ok (call b a)"
proof (cases b)
  case (Push v)
  assume "jumps_ok a"
  then have "jumps_ok (a\<lparr>chunk := snd (addConstant (INTEGER v) (chunk a))\<rparr>)"
    by (simp add: jumps_ok_def addConstant_def)
  then have "jumps_ok (emit PUSH (int32_of_size (fst (addConstant (INTEGER v) (chunk a))))
      (a\<lparr>chunk := snd (addConstant (INTEGER v) (chunk a))\<rparr>))"
    by (rule jumps_ok_emit)
  then show ?thesis
    using Push by (auto simp: Assembler_push_def split: prod.splits)
next
  case (Label name)
  assume "jumps_ok a"
  then show ?thesis using Label by (simp add: jumps_ok_def label_def)
next
  case NextLine
  assume "jumps_ok a"
  then show ?thesis using NextLine by (simp add: jumps_ok_def nextLine_def)
qed (simp_all add: jumps_ok_emit jumps_ok_emit_jump Assembler_op_def jump_def jumpIfFalse_def
      jumpIfTrue_def loadGlobal_def storeGlobal_def newArray_def)

lemma jumps_ok_calls: "jumps_ok a \<Longrightarrow> jumps_ok (calls bs a)"
  by (induction bs arbitrary: a) (simp_all add: jumps_ok_call)

lemma jumps_ok_build: "jumps_ok (build c bs)"
  by (simp add: build_def jumps_ok_calls jumps_ok_init)

lemma placeholder_call:
  "\<forall>j \<in> set (unresolvedJumps a). fst j < length (code (chunk a)) \<and> operand (code (chunk a) ! fst j) = 0
   \<Longrightarrow> \<forall>j \<in> set (unresolvedJumps (call b a)).
         fst j < length (code (chunk (call b a))) \<and> operand (code (chunk (call b a)) ! fst j) = 0"
  by (cases b) (auto simp: asm_defs Let_def nth_append)

lemma placeholder_calls:
  "\<forall>j \<in> set (unresolvedJumps a). fst j < length (code (chunk a)) \<and> operand (code (chunk a) ! fst j) = 0
   \<Longrightarrow> \<forall>j \<in> set (unresolvedJumps (calls bs a)).
         fst j < length (code (chunk (calls bs a))) \<and> operand (code (chunk (calls bs a)) ! fst j) = 0"
proof (induction bs arbitrary: a)
  case Nil
  then show ?case by simp
next
  case (Cons b bs)
  from placeholder_call [OF Cons.prems, of b] show ?case
    unfolding calls.simps by (rule Cons.IH)
qed

lemma placeholder_build:
  "j \<in> set (unresolvedJumps (build c bs)) \<Longrightarrow> operand (code (chunk (build c bs)) ! fst j) = 0"
  using placeholder_calls [of "Assembler_init c" bs]
  by (simp add: build_def Assembler_init_def)

lemma resolve_loop_frame:
  "labels (resolve_loop js a) = labels a \<and>
   unresolvedJumps (resolve_loop js a) = unresolvedJumps a \<and>
   length (code (chunk (resolve_loop js a))) = length (code (chunk a)) \<and>
   constants (chunk (resolve_loop js a)) = constants (chunk a)"
  by (induction js arbitrary: a) (auto simp: patch_def split: option.splits)

lemma resolve_loop_untouched:
  "off \<notin> fst ` set js \<Longrightarrow>
   code (chunk (resolve_loop js a)) ! off = code (chunk a) ! off"
  by (induction js arbitrary: a) (auto simp: patch_def split: option.splits)

lemma resolve_loop_patched:
  "distinct (map fst js) \<Longrightarrow> (off, name) \<in> set js \<Longrightarrow> off < length (code (chunk a)) \<Longrightarrow>
   code (chunk (resolve_loop js a)) ! off =
     (case labels a name of
        Some target \<Rightarrow> (code (chunk a) ! off)\<lparr>operand := int32_of_size target\<rparr>
      | None \<Rightarrow> code (chunk a) ! off)"
proof (induction js arbitrary: a)
  case Nil
  then show ?case by simp
next
  case (Cons j js)
  obtain o' n' where j: "j = (o', n')" by (cases j)
  let ?a = "case labels a n' of
              Some target \<Rightarrow> a\<lparr>chunk := patch o' target (chunk a)\<rparr>
            | None \<Rightarrow> a\<lparr>asm_cerr := asm_cerr a @ [undefined_label_message n']\<rparr>"
  have step: "resolve_loop (j # js) a = resolve_loop js ?a" by (simp add: j)
  have la: "labels ?a = labels a" by (simp split: option.splits)
  have len: "length (code (chunk ?a)) = length (code (chunk a))"
    by (simp add: patch_def split: option.splits)
  show ?case
  proof (cases "(off, name) = j")
    case True
    then have "off \<notin> fst ` set js" using Cons.prems(1) by (auto simp: j)
    then have "code (chunk (resolve_loop js ?a)) ! off = code (chunk ?a) ! off"
      by (rule resolve_loop_untouched)
    also have "\<dots> = (case labels a name of
        Some target \<Rightarrow> (code (chunk a) ! off)\<lparr>operand := int32_of_size target\<rparr>
      | None \<Rightarrow> code (chunk a) ! off)"
      using True Cons.prems(3) by (auto simp: j patch_def split: option.splits)
    finally show ?thesis by (simp only: step)
  next
    case False
    then have mem: "(off, name) \<in> set js" using Cons.prems(2) by auto
    then have ne: "off \<noteq> o'" using Cons.prems(1) by (force simp: j)
    have d: "distinct (map fst js)" using Cons.prems(1) by simp
    have "code (chunk (resolve_loop js ?a)) ! off =
        (case labels ?a name of
           Some target \<Rightarrow> (code (chunk ?a) ! off)\<lparr>operand := int32_of_size target\<rparr>
         | None \<Rightarrow> code (chunk ?a) ! off)"
      using d mem Cons.prems(3) len by (intro Cons.IH) simp_all
    also have "code (chunk ?a) ! off = code (chunk a) ! off"
      using ne by (simp add: patch_def split: option.splits)
    finally show ?thesis by (simp only: step la)
  qed
qed

lemma resolve_loop_keeps_cerr:
  "x \<in> set (asm_cerr a) \<Longrightarrow> x \<in> set (asm_cerr (resolve_loop js a))"
  by (induction js arbitrary: a) (auto split: option.splits)

lemma resolve_loop_reports:
  "(off, name) \<in> set js \<Longrightarrow> labels a name = None \<Longrightarrow>
   undefined_label_message name \<in> set (asm_cerr (resolve_loop js a))"
proof (induction js arbitrary: a)
  case Nil
  then show ?case by simp
next
  case (Cons j js)
  show ?case
  proof (cases "(off, name) = j")
    case True
    have "undefined_label_message name
        \<in> set (asm_cerr (a\<lparr>asm_cerr := asm_cerr a @ [undefined_label_message name]\<rparr>))"
      by simp
    then have "undefined_label_message name
        \<in> set (asm_cerr (resolve_loop js
              (a\<lparr>asm_cerr := asm_cerr a @ [undefined_label_message name]\<rparr>)))"
      by (rule resolve_loop_keeps_cerr)
    then show ?thesis using True [symmetric] Cons.prems(2) by simp
  next
    case False
    obtain o' n' where j: "j = (o', n')" by (cases j)
    from False Cons.prems have mem: "(off, name) \<in> set js" by auto
    show ?thesis
      using Cons.IH [OF mem] Cons.prems(2)
      by (auto simp: j split: option.splits)
  qed
qed


lemma sint_int32_of_size: "t < 2 ^ 31 \<Longrightarrow> sint (int32_of_size t) = int t"
  using int_of_size_small [of t] by (simp add: int_of_size_def int32_of_size_def)

lemma size_of_int32_of_size: "t < 2 ^ 31 \<Longrightarrow> size_of_int32 (int32_of_size t) = t"
proof -
  assume t: "t < 2 ^ 31"
  then have "t < 2 ^ 64" by (rule less_le_trans) simp
  then show ?thesis
    using t by (simp add: size_of_int32_def sint_int32_of_size unat_of_nat)
qed

text \<open>
  Claim C6, as the code has it. Take any build, from any chunk, and any jump it
  recorded, at instruction \<open>off\<close> to the label \<open>name\<close>; then \<^verbatim>\<open>resolve\<close> runs. The
  instruction at \<open>off\<close> keeps its opcode. If the label is defined, its operand is the
  label's recorded instruction index (narrowed to \<^verbatim>\<open>int32_t\<close>; below \<open>2\<^sup>3\<^sup>1\<close> the jump
  goes to exactly that index). If the label is not defined, the line
  \<^verbatim>\<open>Error: Undefined label 'name'\<close> is on \<^verbatim>\<open>std::cerr\<close> and the operand is still the
  placeholder 0; \<^verbatim>\<open>resolve\<close> returns nothing.
\<close>

theorem resolve_patches_or_reports:
  assumes "(off, name) \<in> set (unresolvedJumps (build c bs))"
  shows "opcode (code (chunk (resolve (build c bs))) ! off) =
           opcode (code (chunk (build c bs)) ! off) \<and>
         (case labels (build c bs) name of
            Some target \<Rightarrow>
              operand (code (chunk (resolve (build c bs))) ! off) = int32_of_size target \<and>
              (target < 2 ^ 31 \<longrightarrow>
                 size_of_int32 (operand (code (chunk (resolve (build c bs))) ! off)) = target)
          | None \<Rightarrow>
              operand (code (chunk (resolve (build c bs))) ! off) = 0 \<and>
              undefined_label_message name \<in> set (asm_cerr (resolve (build c bs))))"
proof -
  let ?a = "build c bs"
  have ok: "jumps_ok ?a" by (rule jumps_ok_build)
  then have d: "distinct (map fst (unresolvedJumps ?a))" and lt: "off < length (code (chunk ?a))"
    using assms by (auto simp: jumps_ok_def)
  have p: "code (chunk (resolve ?a)) ! off =
      (case labels ?a name of
         Some target \<Rightarrow> (code (chunk ?a) ! off)\<lparr>operand := int32_of_size target\<rparr>
       | None \<Rightarrow> code (chunk ?a) ! off)"
    unfolding resolve_def using d assms lt by (rule resolve_loop_patched)
  have z: "operand (code (chunk ?a) ! off) = 0"
    using placeholder_build [OF assms] by simp
  show ?thesis
  proof (cases "labels ?a name")
    case None
    then have "undefined_label_message name \<in> set (asm_cerr (resolve ?a))"
      unfolding resolve_def using assms by (intro resolve_loop_reports)
    with None p z show ?thesis by simp
  next
    case (Some target)
    with p show ?thesis by (simp add: size_of_int32_of_size)
  qed
qed

theorem resolve_patches_or_reports_witness:
  "(0, ''end'') \<in> set (unresolvedJumps
      (build Chunk_init [Jump ''end'', Op NOP, Label ''end'', Op HALT, Jump ''nowhere''])) \<and>
   labels (build Chunk_init [Jump ''end'', Op NOP, Label ''end'', Op HALT, Jump ''nowhere''])
      ''end'' = Some 2 \<and>
   operand (code (chunk (resolve
      (build Chunk_init [Jump ''end'', Op NOP, Label ''end'', Op HALT, Jump ''nowhere'']))) ! 0) = 2 \<and>
   (3, ''nowhere'') \<in> set (unresolvedJumps
      (build Chunk_init [Jump ''end'', Op NOP, Label ''end'', Op HALT, Jump ''nowhere''])) \<and>
   labels (build Chunk_init [Jump ''end'', Op NOP, Label ''end'', Op HALT, Jump ''nowhere''])
      ''nowhere'' = None \<and>
   operand (code (chunk (resolve
      (build Chunk_init [Jump ''end'', Op NOP, Label ''end'', Op HALT, Jump ''nowhere'']))) ! 3) = 0 \<and>
   undefined_label_message ''nowhere'' \<in> set (asm_cerr (resolve
      (build Chunk_init [Jump ''end'', Op NOP, Label ''end'', Op HALT, Jump ''nowhere''])))"
proof -
  let ?bs = "[Jump ''end'', Op NOP, Label ''end'', Op HALT, Jump ''nowhere'']"
  have u: "unresolvedJumps (build Chunk_init ?bs) = [(0, ''end''), (3, ''nowhere'')]"
    by (simp add: build_def Assembler_init_def Chunk_init_def asm_defs)
  have l: "labels (build Chunk_init ?bs) ''end'' = Some 2"
    "labels (build Chunk_init ?bs) ''nowhere'' = None"
    by (simp_all add: build_def Assembler_init_def Chunk_init_def asm_defs)
  have m1: "(0, ''end'') \<in> set (unresolvedJumps (build Chunk_init ?bs))"
    and m2: "(3, ''nowhere'') \<in> set (unresolvedJumps (build Chunk_init ?bs))"
    by (simp_all add: u)
  show ?thesis
    using resolve_patches_or_reports [OF m1] resolve_patches_or_reports [OF m2] m1 m2 l
    by (simp add: int32_of_size_def)
qed

text \<open>
  The claim as stated fails: the build \<^verbatim>\<open>jump("nowhere")\<close>, resolved, yields the chunk
  \<^verbatim>\<open>JMP 0\<close>, the very chunk that \<^verbatim>\<open>label("start"); jump("start")\<close> yields, where the
  jump is resolved to instruction 0.
\<close>

theorem undefined_label_jumps_to_zero_counterexample:
  "chunk (resolve (build Chunk_init [Jump ''nowhere''])) =
     chunk (resolve (build Chunk_init [Label ''start'', Jump ''start''])) \<and>
   code (chunk (resolve (build Chunk_init [Jump ''nowhere'']))) = [Instr JMP 0]"
  by (simp add: build_def Assembler_init_def Chunk_init_def asm_defs resolve_def patch_def
      Instr_def int32_of_size_def)

section \<open>The machine never reads a freed object\<close>

text \<open>
  The hypotheses under which \<^verbatim>\<open>collect\<close> was studied above are an invariant of the
  machine: a new machine is sound, and every turn of the loop on a sound chunk keeps
  it sound, the collection at the head of the turn included. A sound machine never
  reads through a null or dangling object pointer. So the root sets the machine
  passes to \<^verbatim>\<open>collect\<close> always satisfy them.
\<close>

lemma vm_ok_init: "vm_ok VM_init"
  by (simp add: vm_ok_def VM_init_def GarbageCollector_init_def registered_def)

lemma vm_ok_reset: "vm_ok vm \<Longrightarrow> vm_ok (execute_reset vm)"
  by (simp add: vm_ok_def execute_reset_def)

lemma vm_ok_frame:
  "vm_ok vm \<Longrightarrow> vm_ok (vm\<lparr>ip := i\<rparr>)"
  "vm_ok vm \<Longrightarrow> vm_ok (vm\<lparr>running := r\<rparr>)"
  "vm_ok vm \<Longrightarrow> vm_ok (vm\<lparr>cout := out\<rparr>)"
  "vm_ok vm \<Longrightarrow> vm_ok (vm\<lparr>cerr := err\<rparr>)"
  "vm_ok vm \<Longrightarrow> vm_ok (vm\<lparr>callStack := cs\<rparr>)"
  by (simp_all add: vm_ok_def)

lemma vm_ok_runtimeError: "vm_ok vm \<Longrightarrow> vm_ok (runtimeError m vm)"
  by (simp add: vm_ok_def runtimeError_def)

lemma registered_simps [simp]:
  "registered g NIL" "registered g (BOOLEAN b)" "registered g (INTEGER x)"
  "registered g (DOUBLE d)"
  by (simp_all add: registered_def)

lemma gc_simps [simp]:
  "gc (runtimeError m vm) = gc vm" "gc (push v vm) = gc vm"
  "heap (runtimeError m vm) = heap vm" "heap (push v vm) = heap vm"
  by (simp_all add: runtimeError_def push_def)

lemma vm_ok_push: "vm_ok vm \<Longrightarrow> registered (gc vm) v \<Longrightarrow> vm_ok (push v vm)"
  by (auto simp: vm_ok_def push_def)

lemma vm_ok_pop:
  assumes "vm_ok vm" and "pop vm = (v, vm1)"
  shows "vm_ok vm1" and "gc vm1 = gc vm" and "heap vm1 = heap vm" and "registered (gc vm) v"
proof -
  show "vm_ok vm1"
    using assms by (auto simp: vm_ok_def pop_def runtimeError_def split: if_splits)
      (blast dest: in_set_butlastD)
  show "gc vm1 = gc vm" "heap vm1 = heap vm"
    using assms by (auto simp: pop_def runtimeError_def split: if_splits)
  show "registered (gc vm) v"
    using assms by (auto simp: vm_ok_def pop_def split: if_splits)
qed

lemma registered_peek: "vm_ok vm \<Longrightarrow> registered (gc vm) (peek d vm)"
  by (auto simp: peek_def vm_ok_def)

lemma vm_ok_binaryOp:
  assumes "vm_ok vm" and "binaryOp opc vm = Inr (v, vm')"
  shows "vm_ok (push v vm')"
proof -
  obtain b vm1 where p1: "pop vm = (b, vm1)" by (cases "pop vm")
  obtain a vm2 where p2: "pop vm1 = (a, vm2)" by (cases "pop vm1")
  have ok2: "vm_ok vm2" using vm_ok_pop(1) [OF vm_ok_pop(1) [OF assms(1) p1] p2] .
  have "vm_ok vm' \<and> (\<forall>x. v \<noteq> OBJECT x)"
    using assms(2) ok2
    by (auto simp: binaryOp_def p1 p2 vm_ok_runtimeError split: Value.splits OpCode.splits if_splits)
  then show ?thesis by (simp add: vm_ok_push registered_def)
qed

lemma safe_binaryOp: "binaryOp opc vm \<noteq> Inl UseAfterFree \<and> binaryOp opc vm \<noteq> Inl NullDeref"
  by (auto simp: binaryOp_def Let_def split: prod.splits Value.splits OpCode.splits if_splits)

lemma int_index_in_range:
  "0 \<le> k \<Longrightarrow> k < int_of_size (length xs) \<Longrightarrow> nat k < length xs"
  using int_of_size_le [of "length xs"] by linarith


lemma registered_constant:
  "chunk_ok c \<Longrightarrow> nat k < length (constants c) \<Longrightarrow> registered g (constants c ! nat k)"
  by (metis chunk_ok_def nth_mem registered_def)

lemma vm_ok_store:
  assumes "vm_ok vm" and "registered (gc vm) v"
  shows "vm_ok (vm\<lparr>globals := (globals vm)[k := v]\<rparr>)"
proof -
  have "set ((globals vm)[k := v]) \<subseteq> insert v (set (globals vm))"
    by (rule set_update_subset_insert)
  with assms show ?thesis by (auto simp: vm_ok_def)
qed

lemma vm_ok_allocate:
  assumes "vm_ok vm" and "allocate_array n (gc vm) (heap vm) (fresh vm) = (arr, g, h, f)"
  shows "vm_ok (push (OBJECT (Some arr)) (vm\<lparr>gc := g, heap := h, fresh := f\<rparr>))"
proof -
  have new: "fresh vm \<notin> set (objects (gc vm))"
    using assms(1) by (auto simp: vm_ok_def)
  have eqs: "arr = fresh vm" "g = (gc vm)\<lparr>objects := objects (gc vm) @ [fresh vm]\<rparr>"
    "h = (heap vm)(fresh vm \<mapsto> ArrayObject False (replicate n 0))" "f = Suc (fresh vm)"
    using assms(2) by (auto simp: allocate_array_def)
  show ?thesis
    using assms(1) new unfolding eqs
    by (simp add: vm_ok_def push_def registered_def less_Suc_eq) blast
qed

lemma vm_ok_array_set:
  assumes "vm_ok vm" and "heap vm = h" and "h a = Some (ArrayObject m es)"
  shows "vm_ok (vm\<lparr>heap := h(a \<mapsto> ArrayObject m es')\<rparr>)"
  using assms by (auto simp: vm_ok_def)

lemma vm_ok_dispatch:
  assumes ck: "chunk_ok c" and ok: "vm_ok vm" and d: "dispatch c i vm = Inr vm'"
  shows "vm_ok vm'"
proof -
  obtain v1 vm1 where p1: "pop vm = (v1, vm1)" by (cases "pop vm")
  obtain v2 vm2 where p2: "pop vm1 = (v2, vm2)" by (cases "pop vm1")
  obtain v3 vm3 where p3: "pop vm2 = (v3, vm3)" by (cases "pop vm2")
  note ok1 = vm_ok_pop [OF ok p1]
  note ok2 = vm_ok_pop [OF ok1(1) p2]
  note ok3 = vm_ok_pop [OF ok2(1) p3]
  have r1: "registered (gc vm1) v1" "registered (gc vm2) v1" "registered (gc vm2) v2"
    using ok1 ok2 by simp_all
  show ?thesis
  proof (cases "opcode i")
    case PUSH
    with d ck ok show ?thesis
      by (auto simp: dispatch_def split: if_splits
          intro!: vm_ok_push registered_constant int_index_in_range)
  next
    case POP
    with d ok1 p1 show ?thesis by (auto simp: dispatch_def)
  next
    case DUP
    with d ok show ?thesis by (auto simp: dispatch_def intro!: vm_ok_push registered_peek)
  next
    case SWAP
    with d ok2 r1 p1 p2 show ?thesis by (auto simp: dispatch_def intro!: vm_ok_push)
  next
    case NEG
    with d ok1 p1 show ?thesis
      by (auto simp: dispatch_def vm_ok_runtimeError split: Value.splits intro!: vm_ok_push)
  next
    case NOT
    with d ok1 p1 show ?thesis by (auto simp: dispatch_def intro!: vm_ok_push)
  next
    case AND
    with d ok2 p1 p2 show ?thesis by (auto simp: dispatch_def intro!: vm_ok_push)
  next
    case OR
    with d ok2 p1 p2 show ?thesis by (auto simp: dispatch_def intro!: vm_ok_push)
  next
    case LOAD_GLOBAL
    have "global_index i vm \<Longrightarrow> registered (gc vm) (globals vm ! nat (sint (operand i)))"
      using ok int_index_in_range [of "sint (operand i)" "globals vm"]
      by (auto simp: global_index_def vm_ok_def)
    with LOAD_GLOBAL d ok show ?thesis
      by (auto simp: dispatch_def split: if_splits intro!: vm_ok_push)
  next
    case STORE_GLOBAL
    with d ok show ?thesis
      by (auto simp: dispatch_def split: if_splits intro!: vm_ok_store registered_peek)
  next
    case NEW_ARRAY
    with d ok show ?thesis
      by (auto simp: dispatch_def split: if_splits prod.splits intro!: vm_ok_allocate)
  next
    case ARRAY_GET
    with d ok2 p1 p2 show ?thesis
      by (auto simp: dispatch_def vm_ok_runtimeError
          split: Value.splits option.splits Object.splits if_splits intro!: vm_ok_push)
  next
    case ARRAY_SET
    with d ok3 p1 p2 p3 show ?thesis
      by (auto simp: dispatch_def vm_ok_runtimeError
          split: Value.splits option.splits Object.splits if_splits intro!: vm_ok_array_set)
  next
    case ARRAY_LEN
    with d ok1 p1 show ?thesis
      by (auto simp: dispatch_def vm_ok_runtimeError
          split: Value.splits option.splits Object.splits if_splits intro!: vm_ok_push)
  next
    case PRINT
    with d ok1 p1 show ?thesis
      by (auto simp: dispatch_def vm_ok_frame split: sum.splits)
  qed (use d ok in \<open>auto simp: dispatch_def vm_ok_frame vm_ok_runtimeError
         split: if_splits sum.splits prod.splits intro: vm_ok_binaryOp\<close>)
qed


lemma registered_live:
  "vm_ok vm \<Longrightarrow> registered (gc vm) (OBJECT p) \<Longrightarrow> \<exists>a ob. p = Some a \<and> heap vm a = Some ob"
  by (auto simp: vm_ok_def registered_def)

lemma safe_dispatch:
  assumes ok: "vm_ok vm" and d: "dispatch c i vm = Inl f"
  shows "\<not> memory_fault f"
proof -
  obtain v1 vm1 where p1: "pop vm = (v1, vm1)" by (cases "pop vm")
  obtain v2 vm2 where p2: "pop vm1 = (v2, vm2)" by (cases "pop vm1")
  obtain v3 vm3 where p3: "pop vm2 = (v3, vm3)" by (cases "pop vm2")
  note ok1 = vm_ok_pop [OF ok p1]
  note ok2 = vm_ok_pop [OF ok1(1) p2]
  note ok3 = vm_ok_pop [OF ok2(1) p3]
  have l1: "\<And>p. v1 = OBJECT p \<Longrightarrow> \<exists>a ob. p = Some a \<and> heap vm1 a = Some ob"
    using registered_live [OF ok] ok1 by auto
  have l2: "\<And>p. v2 = OBJECT p \<Longrightarrow> \<exists>a ob. p = Some a \<and> heap vm2 a = Some ob"
    using registered_live [OF ok1(1)] ok2 by auto
  have l3: "\<And>p. v3 = OBJECT p \<Longrightarrow> \<exists>a ob. p = Some a \<and> heap vm3 a = Some ob"
    using registered_live [OF ok2(1)] ok3 by auto
  show ?thesis
  proof (cases "opcode i")
    case ARRAY_GET
    with d p1 p2 l2 show ?thesis
      by (auto simp: dispatch_def memory_fault_def
          split: Value.splits option.splits Object.splits if_splits)
  next
    case ARRAY_SET
    with d p1 p2 p3 l3 show ?thesis
      by (auto simp: dispatch_def memory_fault_def
          split: Value.splits option.splits Object.splits if_splits)
  next
    case ARRAY_LEN
    with d p1 l1 show ?thesis
      by (auto simp: dispatch_def memory_fault_def
          split: Value.splits option.splits Object.splits if_splits)
  next
    case PRINT
    with d p1 l1 show ?thesis
      by (auto simp: dispatch_def memory_fault_def toString_def
          split: Value.splits option.splits Object.splits if_splits sum.splits)
  qed (use d safe_binaryOp in \<open>auto simp: dispatch_def memory_fault_def Let_def
         split: if_splits sum.splits prod.splits Value.splits\<close>)
qed

lemma vm_ok_gc_check:
  assumes ok: "vm_ok vm"
  shows "\<exists>vm'. gc_check vm = Inr vm' \<and> vm_ok vm' \<and> stack vm' = stack vm \<and>
           globals vm' = globals vm \<and> ip vm' = ip vm \<and> running vm' = running vm"
proof (cases "shouldCollect (gc vm)")
  case False
  with ok show ?thesis by (simp add: gc_check_def)
next
  case True
  let ?g = "gc vm" and ?h = "heap vm"
  let ?h2 = "marked_heap (globals vm) (marked_heap (stack vm) ?h)"
  let ?kept = "filter (is_marked ?h2) (objects ?g)"
  let ?g' = "?g\<lparr>objects := ?kept, nextGC := max (threshold ?g) (length ?kept * 2)\<rparr>"
  let ?h' = "swept_heap (objects ?g) ?h2"
  have d: "distinct (objects ?g)" using ok by (simp add: vm_ok_def)
  have reg: "\<forall>a \<in> set (objects ?g). \<exists>ob. ?h a = Some ob \<and> \<not> marked ob"
    using ok by (auto simp: vm_ok_def)
  then have reg': "\<forall>a \<in> set (objects ?g). ?h a \<noteq> None" by auto
  have roots: "\<forall>a. OBJECT (Some a) \<in> set (stack vm @ globals vm) \<longrightarrow> a \<in> set (objects ?g)"
    using ok unfolding vm_ok_def registered_def by simp blast
  then have live: "\<forall>a. OBJECT (Some a) \<in> set (stack vm @ globals vm) \<longrightarrow> ?h a \<noteq> None"
    using reg' by blast
  have c: "collect ?g (stack vm) (globals vm) ?h = Inr (?g', ?h')"
    using d reg' live by (rule collect_eq)
  have kept: "?kept = filter (\<lambda>a. OBJECT (Some a) \<in> set (stack vm @ globals vm)) (objects ?g)"
    using reg by (intro filter_cong refl) (metis is_marked_marked_heap)
  have surv: "\<forall>a \<in> set ?kept. \<exists>ob. ?h' a = Some ob \<and> \<not> marked ob"
  proof
    fix a assume a: "a \<in> set ?kept"
    then obtain ob where ob: "?h a = Some ob" using reg' by auto
    then have "?h2 a \<noteq> None" by simp
    then obtain ob2 where "?h2 a = Some ob2" by (auto simp del: marked_heap_None)
    with a show "\<exists>ob. ?h' a = Some ob \<and> \<not> marked ob"
      by (simp add: swept_heap_def del: marked_heap_None)
  qed
  have "vm_ok (vm\<lparr>gc := ?g', heap := ?h'\<rparr>)"
    unfolding vm_ok_def
  proof (intro conjI)
    show "distinct (objects (gc (vm\<lparr>gc := ?g', heap := ?h'\<rparr>)))" using d by simp
    show "\<forall>a \<in> set (objects (gc (vm\<lparr>gc := ?g', heap := ?h'\<rparr>))).
            a < fresh (vm\<lparr>gc := ?g', heap := ?h'\<rparr>) \<and>
            (\<exists>ob. heap (vm\<lparr>gc := ?g', heap := ?h'\<rparr>) a = Some ob \<and> \<not> marked ob)"
      using surv ok by (simp add: vm_ok_def)
    show "\<forall>v \<in> set (stack (vm\<lparr>gc := ?g', heap := ?h'\<rparr>)) \<union>
               set (globals (vm\<lparr>gc := ?g', heap := ?h'\<rparr>)).
            registered (gc (vm\<lparr>gc := ?g', heap := ?h'\<rparr>)) v"
    proof
      fix v assume "v \<in> set (stack (vm\<lparr>gc := ?g', heap := ?h'\<rparr>)) \<union>
               set (globals (vm\<lparr>gc := ?g', heap := ?h'\<rparr>))"
      then have v: "v \<in> set (stack vm @ globals vm)" by simp
      then have r: "registered ?g v" using ok by (simp add: vm_ok_def)
      have "registered ?g' v"
        unfolding registered_def
      proof (intro allI impI)
        fix p assume p: "v = OBJECT p"
        with r obtain a where a: "p = Some a" "a \<in> set (objects ?g)"
          by (auto simp: registered_def)
        with v p have "a \<in> set ?kept" unfolding kept by simp
        with a show "\<exists>a. p = Some a \<and> a \<in> set (objects ?g')" by simp
      qed
      then show "registered (gc (vm\<lparr>gc := ?g', heap := ?h'\<rparr>)) v" by simp
    qed
  qed
  with True c show ?thesis by (simp add: gc_check_def)
qed


lemma vm_ok_step:
  assumes "chunk_ok c" and "vm_ok vm"
  shows "case step c vm of Inl f \<Rightarrow> \<not> memory_fault f | Inr vm' \<Rightarrow> vm_ok vm'"
proof -
  obtain vm1 where g: "gc_check vm = Inr vm1" and ok1: "vm_ok vm1"
    using vm_ok_gc_check [OF assms(2)] by blast
  have ok2: "vm_ok (vm1\<lparr>ip := ip vm1 + 1\<rparr>)" using ok1 by (rule vm_ok_frame)
  show ?thesis
  proof (cases "dispatch c (code c ! ip vm1) (vm1\<lparr>ip := ip vm1 + 1\<rparr>)")
    case (Inl f)
    with safe_dispatch [OF ok2 Inl] show ?thesis by (simp add: step_def g)
  next
    case (Inr vm')
    with vm_ok_dispatch [OF assms(1) ok2 Inr] show ?thesis by (simp add: step_def g)
  qed
qed

lemma vm_ok_run:
  "chunk_ok c \<Longrightarrow> vm_ok vm \<Longrightarrow>
   (case run n c vm of
      None \<Rightarrow> True
    | Some (Inl f) \<Rightarrow> \<not> memory_fault f
    | Some (Inr vm') \<Rightarrow> vm_ok vm')"
proof (induction n arbitrary: vm)
  case 0
  then show ?case by (subst run.simps) simp
next
  case (Suc n)
  show ?case
  proof (cases "running vm \<and> ip vm < length (code c)")
    case False
    then have "run (Suc n) c vm = Some (Inr vm)" by (subst run_Suc) auto
    with Suc.prems show ?thesis by simp
  next
    case True
    show ?thesis
    proof (cases "step c vm")
      case (Inl f)
      with True have "run (Suc n) c vm = Some (Inl f)" by (subst run_Suc) auto
      with Inl vm_ok_step [OF Suc.prems] show ?thesis by simp
    next
      case (Inr vm')
      with vm_ok_step [OF Suc.prems] have "vm_ok vm'" by simp
      moreover from True Inr have "run (Suc n) c vm = run n c vm'" by (subst run_Suc) auto
      ultimately show ?thesis using Suc.IH [OF Suc.prems(1), of vm'] by simp
    qed
  qed
qed

lemma vm_ok_execute:
  assumes "chunk_ok c" and "vm_ok vm"
  shows "case execute n c vm of
           None \<Rightarrow> True
         | Some (Inl f) \<Rightarrow> \<not> memory_fault f
         | Some (Inr (b, vm')) \<Rightarrow> vm_ok vm'"
  using vm_ok_run [OF assms(1) vm_ok_reset [OF assms(2)], of n]
  by (simp add: execute_def split: option.splits sum.splits)

end
